theory Spec2Isabelle
  imports Main "HOL-Library.Word"
begin

unbundle bit_operations_syntax

section \<open>The libde265 decoder plugin (libde265dec.c)\<close>

text \<open>
  A shallow embedding of \<^verbatim>\<open>src/libde265dec.c\<close>. C \<^verbatim>\<open>int\<close> values that are only
  compared, added to buffer offsets or copied are HOL integers; where the 32-bit width
  of \<^verbatim>\<open>int\<close> is visible (the NAL length assembled from packet bytes, the rounding of
  \<^verbatim>\<open>align_value\<close>) the computation is done on a \<open>32 word\<close>, and the conversion to
  \<^verbatim>\<open>uintptr_t\<close> of the alignment test is written out. Log output (\<^verbatim>\<open>av_log\<close>) is not
  modelled.
\<close>

subsection \<open>Pixel formats\<close>

text \<open>
  \<^verbatim>\<open>enum de265_chroma\<close> comes from the engine's header; the last constructor stands for
  any value other than the four named ones, which the \<^verbatim>\<open>default:\<close> branch of the
  switch in \<^verbatim>\<open>get_pixel_format\<close> handles.
\<close>

datatype de265_chroma =
    de265_chroma_mono
  | de265_chroma_420
  | de265_chroma_422
  | de265_chroma_444
  | de265_chroma_unknown

datatype AVPixelFormat =
    AV_PIX_FMT_NONE
  | AV_PIX_FMT_GRAY8
  | AV_PIX_FMT_YUV420P | AV_PIX_FMT_YUV422P | AV_PIX_FMT_YUV444P
  | AV_PIX_FMT_YUV420P9LE | AV_PIX_FMT_YUV422P9LE | AV_PIX_FMT_YUV444P9LE
  | AV_PIX_FMT_YUV420P10LE | AV_PIX_FMT_YUV422P10LE | AV_PIX_FMT_YUV444P10LE
  | AV_PIX_FMT_YUV420P12LE | AV_PIX_FMT_YUV422P12LE | AV_PIX_FMT_YUV444P12LE
  | AV_PIX_FMT_YUV420P14LE | AV_PIX_FMT_YUV422P14LE | AV_PIX_FMT_YUV444P14LE
  | AV_PIX_FMT_YUV420P16LE | AV_PIX_FMT_YUV422P16LE | AV_PIX_FMT_YUV444P16LE

text \<open>
  \<^verbatim>\<open>align_value\<close>, lines 70-72: \<^verbatim>\<open>((value) + (alignment - 1)) & ~(alignment - 1)\<close> on
  \<^verbatim>\<open>int\<close>. The sum is a 32-bit addition and wraps around as the compiled code does.
\<close>

definition align_value :: "int \<Rightarrow> int \<Rightarrow> int" where
  "align_value v al =
     sint (((word_of_int v :: 32 word) + (word_of_int al - 1)) AND NOT (word_of_int al - 1))"

text \<open>
  \<^verbatim>\<open>get_pixel_format\<close>, lines 75-172. The \<^verbatim>\<open>avctx\<close> argument is used for logging only
  and is dropped. Each inner switch lists its six exact cases first and then the
  \<^verbatim>\<open>default:\<close> branch with its range test.
\<close>

fun get_pixel_format :: "de265_chroma \<Rightarrow> int \<Rightarrow> AVPixelFormat" where
  "get_pixel_format de265_chroma_mono bits_per_pixel = AV_PIX_FMT_GRAY8"
| "get_pixel_format de265_chroma_420 bits_per_pixel =
     (if bits_per_pixel = 8 then AV_PIX_FMT_YUV420P
      else if bits_per_pixel = 9 then AV_PIX_FMT_YUV420P9LE
      else if bits_per_pixel = 10 then AV_PIX_FMT_YUV420P10LE
      else if bits_per_pixel = 12 then AV_PIX_FMT_YUV420P12LE
      else if bits_per_pixel = 14 then AV_PIX_FMT_YUV420P14LE
      else if bits_per_pixel = 16 then AV_PIX_FMT_YUV420P16LE
      else if bits_per_pixel < 8 \<or> bits_per_pixel > 16 then AV_PIX_FMT_NONE
      else AV_PIX_FMT_YUV420P16LE)"
| "get_pixel_format de265_chroma_422 bits_per_pixel =
     (if bits_per_pixel = 8 then AV_PIX_FMT_YUV422P
      else if bits_per_pixel = 9 then AV_PIX_FMT_YUV422P9LE
      else if bits_per_pixel = 10 then AV_PIX_FMT_YUV422P10LE
      else if bits_per_pixel = 12 then AV_PIX_FMT_YUV422P12LE
      else if bits_per_pixel = 14 then AV_PIX_FMT_YUV422P14LE
      else if bits_per_pixel = 16 then AV_PIX_FMT_YUV422P16LE
      else if bits_per_pixel < 8 \<or> bits_per_pixel > 16 then AV_PIX_FMT_NONE
      else AV_PIX_FMT_YUV422P16LE)"
| "get_pixel_format de265_chroma_444 bits_per_pixel =
     (if bits_per_pixel = 8 then AV_PIX_FMT_YUV444P
      else if bits_per_pixel = 9 then AV_PIX_FMT_YUV444P9LE
      else if bits_per_pixel = 10 then AV_PIX_FMT_YUV444P10LE
      else if bits_per_pixel = 12 then AV_PIX_FMT_YUV444P12LE
      else if bits_per_pixel = 14 then AV_PIX_FMT_YUV444P14LE
      else if bits_per_pixel = 16 then AV_PIX_FMT_YUV444P16LE
      else if bits_per_pixel < 8 \<or> bits_per_pixel > 16 then AV_PIX_FMT_NONE
      else AV_PIX_FMT_YUV444P16LE)"
| "get_pixel_format de265_chroma_unknown bits_per_pixel = AV_PIX_FMT_NONE"

text \<open>\<^verbatim>\<open>get_output_bits_per_pixel\<close>, lines 174-205.\<close>

fun get_output_bits_per_pixel :: "AVPixelFormat \<Rightarrow> int" where
  "get_output_bits_per_pixel AV_PIX_FMT_GRAY8 = 8"
| "get_output_bits_per_pixel AV_PIX_FMT_YUV420P = 8"
| "get_output_bits_per_pixel AV_PIX_FMT_YUV422P = 8"
| "get_output_bits_per_pixel AV_PIX_FMT_YUV444P = 8"
| "get_output_bits_per_pixel AV_PIX_FMT_YUV420P9LE = 9"
| "get_output_bits_per_pixel AV_PIX_FMT_YUV422P9LE = 9"
| "get_output_bits_per_pixel AV_PIX_FMT_YUV444P9LE = 9"
| "get_output_bits_per_pixel AV_PIX_FMT_YUV420P10LE = 10"
| "get_output_bits_per_pixel AV_PIX_FMT_YUV422P10LE = 10"
| "get_output_bits_per_pixel AV_PIX_FMT_YUV444P10LE = 10"
| "get_output_bits_per_pixel AV_PIX_FMT_YUV420P12LE = 12"
| "get_output_bits_per_pixel AV_PIX_FMT_YUV422P12LE = 12"
| "get_output_bits_per_pixel AV_PIX_FMT_YUV444P12LE = 12"
| "get_output_bits_per_pixel AV_PIX_FMT_YUV420P14LE = 14"
| "get_output_bits_per_pixel AV_PIX_FMT_YUV422P14LE = 14"
| "get_output_bits_per_pixel AV_PIX_FMT_YUV444P14LE = 14"
| "get_output_bits_per_pixel AV_PIX_FMT_YUV420P16LE = 16"
| "get_output_bits_per_pixel AV_PIX_FMT_YUV422P16LE = 16"
| "get_output_bits_per_pixel AV_PIX_FMT_YUV444P16LE = 16"
| "get_output_bits_per_pixel AV_PIX_FMT_NONE = -1"

subsection \<open>The engine, seen from the plugin\<close>

text \<open>
  The decoding engine is external. The model keeps the list of calls the plugin has made
  to it (that list is the \<^verbatim>\<open>decoder\<close> handle of the context), and takes the engine's
  answers as a parameter: a function from the calls made so far and the present call to
  the \<^verbatim>\<open>de265_error\<close> it returns, \<open>DE265_OK\<close> being 0.

  A data pointer handed to the engine is recorded as the buffer it points into and the
  offset from that buffer's start, together with the length argument; nothing keeps
  offset plus length inside the buffer but the checks of the calling code.
\<close>

type_synonym byte = "8 word"

datatype buffer = Extradata | Packet

datatype de265_call =
    Push_NAL buffer int int int
  | Push_data buffer int int int
  | Push_end_of_NAL
  | Push_end_of_stream

type_synonym de265_decoder_context = "de265_call list"

type_synonym engine = "de265_decoder_context \<Rightarrow> de265_call \<Rightarrow> int"

definition DE265_OK :: int where
  "DE265_OK = 0"

datatype error = AVERROR_INVALIDDATA | Read_outside_buffer

text \<open>
  \<open>Read_outside_buffer\<close> is not a return value of the C code: it marks a read by the
  plugin itself through a pointer that has left the packet, which C leaves undefined.
\<close>

subsection \<open>Image descriptions, frames and the decoder context\<close>

text \<open>The fields of \<^verbatim>\<open>struct de265_image_spec\<close> that the plugin reads.\<close>

record de265_image_spec =
  chroma :: de265_chroma
  luma_bits_per_pixel :: int
  chroma_bits_per_pixel :: int
  width :: int
  height :: int
  visible_width :: int
  visible_height :: int
  crop_left :: int
  crop_top :: int
  alignment :: int

text \<open>
  The fields of \<^verbatim>\<open>AVFrame\<close> that the plugin touches. \<open>frame_data\<close> holds the plane base
  addresses and \<open>frame_linesize\<close> the strides; a plane that is not set reads as the null
  pointer, respectively as stride 0.
\<close>

record AVFrame =
  frame_width :: int
  frame_height :: int
  frame_format :: AVPixelFormat
  frame_opaque :: "de265_image_spec option"
  frame_data :: "int list"
  frame_linesize :: "int list"

definition plane_data :: "AVFrame \<Rightarrow> nat \<Rightarrow> int" where
  "plane_data f i = (if i < length (frame_data f) then frame_data f ! i else 0)"

definition plane_linesize :: "AVFrame \<Rightarrow> nat \<Rightarrow> int" where
  "plane_linesize f i = (if i < length (frame_linesize f) then frame_linesize f ! i else 0)"

definition MAX_FRAME_QUEUE :: nat where
  "MAX_FRAME_QUEUE = 16"

definition MAX_SPEC_QUEUE :: nat where
  "MAX_SPEC_QUEUE = 16"

text \<open>
  \<^verbatim>\<open>DE265Context\<close>, lines 55-67. Each of the two queues is an array with a length field
  in C; here it is the list of the entries in use, so that \<^verbatim>\<open>frame_queue_len\<close> is
  \<open>length (frame_queue ctx)\<close> and \<^verbatim>\<open>spec_queue_len\<close> is \<open>length (spec_queue ctx)\<close>.
\<close>

record DE265Context =
  decoder :: de265_decoder_context
  check_extra :: int
  packetized :: int
  length_size :: int
  deblocking :: int
  decode_ratio :: int
  frame_queue :: "AVFrame list"
  spec_queue :: "de265_image_spec list"

subsection \<open>Feeding input: the out-of-band block and the packet\<close>

definition engine_call :: "engine \<Rightarrow> de265_call \<Rightarrow> DE265Context \<Rightarrow> int \<times> DE265Context" where
  "engine_call E c ctx = (E (decoder ctx) c, ctx\<lparr>decoder := decoder ctx @ [c]\<rparr>)"

text \<open>
  \<^verbatim>\<open>extradata[p] << 8 | extradata[p+1]\<close>: two bytes, promoted to \<^verbatim>\<open>int\<close>.
\<close>

definition be16 :: "byte list \<Rightarrow> int \<Rightarrow> int" where
  "be16 bs p = push_bit 8 (uint (bs ! nat p)) OR uint (bs ! nat (p + 1))"

text \<open>
  The inner loop of lines 398-414: \<open>n\<close> is the number of iterations left
  (\<^verbatim>\<open>nal_count - j\<close>). The result is the error, if one was returned, the position
  reached and the context.
\<close>

fun extra_nals ::
  "engine \<Rightarrow> byte list \<Rightarrow> nat \<Rightarrow> int \<Rightarrow> DE265Context \<Rightarrow> error option \<times> int \<times> DE265Context"
where
  "extra_nals E extradata 0 pos ctx = (None, pos, ctx)"
| "extra_nals E extradata (Suc n) pos ctx =
     (if pos + 2 > int (length extradata) then (Some AVERROR_INVALIDDATA, pos, ctx)
      else
        let nal_size = be16 extradata pos in
        if pos + 2 + nal_size > int (length extradata) then (Some AVERROR_INVALIDDATA, pos, ctx)
        else
          (case engine_call E (Push_NAL Extradata (pos + 2) nal_size 0) ctx of
             (err, ctx') \<Rightarrow>
               if err \<noteq> DE265_OK then (Some AVERROR_INVALIDDATA, pos, ctx')
               else extra_nals E extradata n (pos + 2 + nal_size) ctx'))"

text \<open>
  The outer loop of lines 390-415: \<open>n\<close> is \<^verbatim>\<open>num_param_sets - i\<close>.
\<close>

fun extra_param_sets ::
  "engine \<Rightarrow> byte list \<Rightarrow> nat \<Rightarrow> int \<Rightarrow> DE265Context \<Rightarrow> error option \<times> DE265Context"
where
  "extra_param_sets E extradata 0 pos ctx = (None, ctx)"
| "extra_param_sets E extradata (Suc n) pos ctx =
     (if pos + 3 > int (length extradata) then (Some AVERROR_INVALIDDATA, ctx)
      else
        let nal_count = be16 extradata (pos + 1) in
        (case extra_nals E extradata (nat nal_count) (pos + 3) ctx of
           (Some e, pos', ctx') \<Rightarrow> (Some e, ctx')
         | (None, pos', ctx') \<Rightarrow> extra_param_sets E extradata n pos' ctx'))"

text \<open>
  Lines 376-430 of \<^verbatim>\<open>ff_libde265dec_decode\<close>. \<open>extradata\<close> is the buffer of
  \<^verbatim>\<open>avctx->extradata_size\<close> bytes at \<^verbatim>\<open>avctx->extradata\<close>; the empty list is the case
  \<^verbatim>\<open>extradata_size <= 0\<close>. The test \<^verbatim>\<open>extradata != NULL\<close> is true for a buffer that
  exists.
\<close>

definition decode_extradata ::
  "engine \<Rightarrow> byte list \<Rightarrow> DE265Context \<Rightarrow> error option \<times> DE265Context"
where
  "decode_extradata E extradata ctx0 =
     (if check_extra ctx0 \<noteq> 0 then
        let extradata_size = int (length extradata);
            ctx = ctx0\<lparr>check_extra := 0\<rparr>
        in
        if extradata_size > 0 then
          if extradata_size > 3 \<and>
             (extradata ! 0 \<noteq> 0 \<or> extradata ! 1 \<noteq> 0 \<or> extradata ! 2 > 1)
          then
            (case
               (if extradata_size > 22 then
                  extra_param_sets E extradata (unat (extradata ! 22)) 23
                    (ctx\<lparr>packetized := 1,
                         length_size := uint (extradata ! 21 AND 3) + 1\<rparr>)
                else (None, ctx\<lparr>packetized := 1\<rparr>))
             of
               (Some e, ctx') \<Rightarrow> (Some e, ctx')
             | (None, ctx') \<Rightarrow> (None, snd (engine_call E Push_end_of_NAL ctx')))
          else
            (case engine_call E (Push_data Extradata 0 extradata_size 0)
                    (ctx\<lparr>packetized := 0\<rparr>) of
               (err, ctx') \<Rightarrow>
                 if err \<noteq> DE265_OK then (Some AVERROR_INVALIDDATA, ctx')
                 else (None, snd (engine_call E Push_end_of_NAL ctx')))
        else (None, ctx)
      else (None, ctx0))"

text \<open>
  The \<^verbatim>\<open>for\<close> loop of lines 445-447, which assembles \<^verbatim>\<open>nal_size\<close> from the
  \<^verbatim>\<open>length_size\<close> bytes at \<open>pos\<close>. \<^verbatim>\<open>nal_size\<close> is a 32-bit \<^verbatim>\<open>int\<close>: with four length
  bytes the last shift can leave the range of \<^verbatim>\<open>int\<close>, and the model wraps around as
  the compiled code does.
\<close>

definition read_nal_size :: "byte list \<Rightarrow> int \<Rightarrow> int \<Rightarrow> 32 word" where
  "read_nal_size pkt pos len =
     fold (\<lambda>i nal_size. push_bit 8 nal_size OR ucast (pkt ! nat (pos + int i)))
       [0 ..< nat len] 0"

text \<open>
  The \<^verbatim>\<open>while\<close> loop of lines 442-455. \<open>pos\<close> is \<^verbatim>\<open>avpkt_data - avpkt->data\<close>. The loop
  need not end (a length field can encode \<open>- length_size\<close>, which leaves the pointer in
  place), so the function is partial: \<open>None\<close> is a run that never returns.

  The advance \<^verbatim>\<open>ctx->length_size + nal_size\<close> of line 454 is the sum of two integers
  here. In the code it is an addition of two \<^verbatim>\<open>int\<close>, which leaves the range of \<^verbatim>\<open>int\<close>
  exactly when \<^verbatim>\<open>nal_size > INT_MAX - length_size\<close>; on such a length field (for
  instance \<^verbatim>\<open>7f ff ff ff\<close>) the model is right about the submission of that unit and
  says nothing reliable about what follows it. No record that lies inside a packet
  has such a length, since \<^verbatim>\<open>avpkt->size\<close> is an \<^verbatim>\<open>int\<close> itself.
\<close>

partial_function (option) push_nal_units ::
  "engine \<Rightarrow> byte list \<Rightarrow> int \<Rightarrow> int \<Rightarrow> int \<Rightarrow> DE265Context
     \<Rightarrow> (error option \<times> DE265Context) option"
where
  "push_nal_units E pkt len pts pos ctx =
     (if pos + len \<le> int (length pkt) then
        if pos < 0 \<and> 0 < len then Some (Some Read_outside_buffer, ctx)
        else
          let nal_size = sint (read_nal_size pkt pos len) in
          (case engine_call E (Push_NAL Packet (pos + len) nal_size pts) ctx of
             (err, ctx') \<Rightarrow>
               if err \<noteq> DE265_OK then Some (Some AVERROR_INVALIDDATA, ctx')
               else push_nal_units E pkt len pts (pos + len + nal_size) ctx')
      else Some (None, ctx))"

declare push_nal_units.simps [code]

definition AV_NOPTS_VALUE :: int where
  "AV_NOPTS_VALUE = - (2 ^ 63)"

text \<open>
  Lines 432-466. \<open>pkt\<close> is the buffer of \<^verbatim>\<open>avpkt->size\<close> bytes at \<^verbatim>\<open>avpkt->data\<close>,
  \<open>pkt_pts\<close> is \<^verbatim>\<open>avpkt->pts\<close> and \<open>reordered_opaque\<close> the field of that name of the
  codec context.
\<close>

definition decode_packet ::
  "engine \<Rightarrow> byte list \<Rightarrow> int \<Rightarrow> int \<Rightarrow> DE265Context \<Rightarrow> (error option \<times> DE265Context) option"
where
  "decode_packet E pkt pkt_pts reordered_opaque ctx =
     (if int (length pkt) > 0 then
        let pts = (if pkt_pts \<noteq> AV_NOPTS_VALUE then pkt_pts else reordered_opaque) in
        if packetized ctx \<noteq> 0 then push_nal_units E pkt (length_size ctx) pts 0 ctx
        else
          (case engine_call E (Push_data Packet 0 (int (length pkt)) pts) ctx of
             (err, ctx') \<Rightarrow>
               if err \<noteq> DE265_OK then Some (Some AVERROR_INVALIDDATA, ctx')
               else Some (None, ctx'))
      else Some (None, snd (engine_call E Push_end_of_stream ctx)))"

text \<open>
  The input half of \<^verbatim>\<open>ff_libde265dec_decode\<close> (lines 376-466): the out-of-band block
  is looked at on the first call, then the packet is fed. An error return leaves the
  function at once.
\<close>

definition decode_input ::
  "engine \<Rightarrow> byte list \<Rightarrow> byte list \<Rightarrow> int \<Rightarrow> int \<Rightarrow> DE265Context
     \<Rightarrow> (error option \<times> DE265Context) option"
where
  "decode_input E extradata pkt pkt_pts reordered_opaque ctx =
     (case decode_extradata E extradata ctx of
        (Some e, ctx') \<Rightarrow> Some (Some e, ctx')
      | (None, ctx') \<Rightarrow> decode_packet E pkt pkt_pts reordered_opaque ctx')"

text \<open>
  The fields that \<^verbatim>\<open>ff_libde265dec_ctx_init\<close> (lines 673-716) sets; the engine has
  received no call yet. The thread and latency settings of the engine are not modelled.
\<close>

definition ff_libde265dec_ctx_init :: DE265Context where
  "ff_libde265dec_ctx_init =
     \<lparr>decoder = [], check_extra = 1, packetized = 1, length_size = 4, deblocking = 1,
      decode_ratio = 100, frame_queue = [], spec_queue = []\<rparr>"

subsection \<open>Well-formed packets and what the engine is handed\<close>

text \<open>
  The notions the statements below are phrased in. \<open>be_bytes len n\<close> is the number \<open>n\<close>
  written big-endian in \<open>len\<close> bytes; \<open>nal_records len ps\<close> is the packet made of the
  payloads \<open>ps\<close>, each behind its length field; \<open>nal_calls len pts pos ps\<close> are the
  submissions expected for such a packet that starts at offset \<open>pos\<close>; \<open>call_bytes buf c\<close>
  are the bytes of the buffer \<open>buf\<close> that a call covers; \<open>accepted E h cs\<close> says that the
  engine answers \<open>DE265_OK\<close> to each of the calls \<open>cs\<close> made in a row after the calls \<open>h\<close>;
  \<open>be_word\<close> is the value a sequence of length bytes encodes.
\<close>

fun be_bytes :: "nat \<Rightarrow> nat \<Rightarrow> byte list" where
  "be_bytes 0 n = []"
| "be_bytes (Suc len) n = be_bytes len (n div 256) @ [of_nat n]"

definition be_word :: "byte list \<Rightarrow> 32 word" where
  "be_word bs = fold (\<lambda>b w. push_bit 8 w OR ucast b) bs 0"

fun nal_records :: "nat \<Rightarrow> byte list list \<Rightarrow> byte list" where
  "nal_records len [] = []"
| "nal_records len (p # ps) = be_bytes len (length p) @ p @ nal_records len ps"

fun nal_calls :: "nat \<Rightarrow> int \<Rightarrow> int \<Rightarrow> byte list list \<Rightarrow> de265_call list" where
  "nal_calls len pts pos [] = []"
| "nal_calls len pts pos (p # ps) =
     Push_NAL Packet (pos + int len) (int (length p)) pts
       # nal_calls len pts (pos + int len + int (length p)) ps"

fun call_bytes :: "byte list \<Rightarrow> de265_call \<Rightarrow> byte list" where
  "call_bytes buf (Push_NAL b off n pts) = take (nat n) (drop (nat off) buf)"
| "call_bytes buf (Push_data b off n pts) = take (nat n) (drop (nat off) buf)"
| "call_bytes buf Push_end_of_NAL = []"
| "call_bytes buf Push_end_of_stream = []"

fun accepted :: "engine \<Rightarrow> de265_decoder_context \<Rightarrow> de265_call list \<Rightarrow> bool" where
  "accepted E h [] = True"
| "accepted E h (c # cs) = (E h c = DE265_OK \<and> accepted E (h @ [c]) cs)"

fun is_Push_data :: "de265_call \<Rightarrow> bool" where
  "is_Push_data (Push_data b off n pts) = True"
| "is_Push_data c = False"

subsection \<open>The parameter-set groups of a structured block, as the specification words them\<close>

text \<open>
  These two functions follow the description of the out-of-band block, not the code:
  they consume the bytes behind the 23-byte header. \<open>spec_nals n bs\<close> reads \<open>n\<close> units,
  each a 2-byte big-endian size followed by that many payload bytes, and returns the
  payloads and the bytes left over; \<open>spec_groups g bs\<close> reads \<open>g\<close> groups, each one
  ignored byte, a 2-byte big-endian unit count and the units, and returns all payloads
  in order. Either is \<open>None\<close> when a header or a declared size runs past the end.
  \<open>in_buffer buf c\<close> says that the bytes a call hands to the engine lie inside \<open>buf\<close>.
\<close>

definition be16_of :: "byte \<Rightarrow> byte \<Rightarrow> nat" where
  "be16_of h l = 256 * unat h + unat l"

fun spec_nals :: "nat \<Rightarrow> byte list \<Rightarrow> (byte list list \<times> byte list) option" where
  "spec_nals 0 bs = Some ([], bs)"
| "spec_nals (Suc n) (h # l # bs) =
     (if be16_of h l \<le> length bs then
        (case spec_nals n (drop (be16_of h l) bs) of
           None \<Rightarrow> None
         | Some (ps, r) \<Rightarrow> Some (take (be16_of h l) bs # ps, r))
      else None)"
| "spec_nals (Suc n) bs = None"

fun spec_groups :: "nat \<Rightarrow> byte list \<Rightarrow> byte list list option" where
  "spec_groups 0 bs = Some []"
| "spec_groups (Suc g) (t # h # l # bs) =
     (case spec_nals (be16_of h l) bs of
        None \<Rightarrow> None
      | Some (ps, r) \<Rightarrow>
          (case spec_groups g r of None \<Rightarrow> None | Some qs \<Rightarrow> Some (ps @ qs)))"
| "spec_groups (Suc g) bs = None"

fun in_buffer :: "byte list \<Rightarrow> de265_call \<Rightarrow> bool" where
  "in_buffer buf (Push_NAL b off n pts) = (0 \<le> off \<and> 0 \<le> n \<and> off + n \<le> int (length buf))"
| "in_buffer buf (Push_data b off n pts) = (0 \<le> off \<and> 0 \<le> n \<and> off + n \<le> int (length buf))"
| "in_buffer buf c = True"

fun is_Push_NAL :: "de265_call \<Rightarrow> bool" where
  "is_Push_NAL (Push_NAL b off n pts) = True"
| "is_Push_NAL c = False"

subsection \<open>The buffer bridge: allocate and release callbacks\<close>

text \<open>The fields of \<^verbatim>\<open>AVCodecContext\<close> that \<^verbatim>\<open>ff_libde265dec_get_buffer\<close> writes.\<close>

record AVCodecContext =
  coded_width :: int
  coded_height :: int
  pix_fmt :: AVPixelFormat

text \<open>
  What the host framework and the C library answer during one callback; they are
  external, so their answers are parameters. \<open>has_get_buffer2\<close> is
  \<^verbatim>\<open>avctx->get_buffer2 != NULL\<close>; \<open>get_buffer2\<close> is the hook (\<open>None\<close> for a negative return,
  otherwise the frame with its buffers); \<open>av_frame_alloc\<close> is the fresh frame or \<open>None\<close>
  for \<^verbatim>\<open>NULL\<close>; \<open>av_frame_get_buffer\<close> is \<open>None\<close> for a non-zero return;
  \<open>av_frame_make_writable\<close> may replace the buffers of a frame; \<open>malloc_spec\<close> says whether
  \<^verbatim>\<open>malloc(sizeof(struct de265_image_spec))\<close> succeeds.
\<close>

record host =
  has_get_buffer2 :: bool
  get_buffer2 :: "AVCodecContext \<Rightarrow> AVFrame \<Rightarrow> AVFrame option"
  av_frame_alloc :: "AVFrame option"
  av_frame_get_buffer :: "AVFrame \<Rightarrow> int \<Rightarrow> AVFrame option"
  av_frame_make_writable :: "AVFrame \<Rightarrow> AVFrame"
  malloc_spec :: bool

text \<open>
  The callback either returns an \<^verbatim>\<open>int\<close> of its own or, at the label \<^verbatim>\<open>fallback\<close>,
  returns whatever the engine's default allocator returns for the picture. The third
  outcome is the one run that does not return: the remainder of line 306 taken with
  a divisor of zero.
\<close>

datatype get_buffer_return = Returned int | Default_get_buffer | Division_by_zero

text \<open>
  Everything a call leaves behind: the return, the planes registered with
  \<^verbatim>\<open>de265_set_image_plane_intern\<close> (index, data pointer, stride, the frame as user data),
  the frames passed to \<^verbatim>\<open>av_frame_free\<close>, and the two contexts.
\<close>

record get_buffer_result =
  gb_return :: get_buffer_return
  gb_planes :: "(nat \<times> int \<times> int \<times> AVFrame) list"
  gb_freed :: "AVFrame list"
  gb_avctx :: AVCodecContext
  gb_dectx :: DE265Context

text \<open>
  \<^verbatim>\<open>free_spec\<close>, lines 207-213. The second component lists the descriptors passed to
  \<^verbatim>\<open>free\<close>.
\<close>

definition free_spec :: "DE265Context \<Rightarrow> de265_image_spec \<Rightarrow> DE265Context \<times> de265_image_spec list" where
  "free_spec ctx spec =
     (if length (spec_queue ctx) < MAX_SPEC_QUEUE
      then (ctx\<lparr>spec_queue := spec_queue ctx @ [spec]\<rparr>, [])
      else (ctx, [spec]))"

text \<open>
  Lines 239-284 of \<^verbatim>\<open>ff_libde265dec_get_buffer\<close>: the frame comes from the host's hook or,
  without a hook, from the head of the frame queue or from a new allocation. The result
  is the frame (\<open>None\<close> is a jump to \<^verbatim>\<open>fallback\<close>), the frames freed on the way and the
  contexts.
\<close>

definition obtain_frame ::
  "host \<Rightarrow> AVCodecContext \<Rightarrow> DE265Context \<Rightarrow> de265_image_spec \<Rightarrow> AVPixelFormat
     \<Rightarrow> AVFrame option \<times> AVFrame list \<times> AVCodecContext \<times> DE265Context"
where
  "obtain_frame H avctx dectx spec format =
     (if has_get_buffer2 H then
        (case av_frame_alloc H of
           None \<Rightarrow> (None, [], avctx, dectx)
         | Some fresh \<Rightarrow>
             let frame = fresh\<lparr>frame_width := visible_width spec,
                               frame_height := visible_height spec,
                               frame_format := format\<rparr>;
                 avctx' = avctx\<lparr>coded_width := align_value (width spec) (alignment spec),
                                 coded_height := height spec,
                                 pix_fmt := format\<rparr>
             in (case get_buffer2 H avctx' frame of
                   None \<Rightarrow> (None, [frame], avctx', dectx)
                 | Some frame' \<Rightarrow> (Some frame', [], avctx', dectx)))
      else
        (case
           (case frame_queue dectx of
              [] \<Rightarrow> (None, [], dectx)
            | frame # rest \<Rightarrow>
                if frame_width frame \<noteq> width spec \<or> frame_height frame \<noteq> height spec
                   \<or> frame_format frame \<noteq> format
                then (None, [frame], dectx\<lparr>frame_queue := rest\<rparr>)
                else (Some (av_frame_make_writable H frame), [], dectx\<lparr>frame_queue := rest\<rparr>))
         of
           (Some frame, freed, dectx') \<Rightarrow> (Some frame, freed, avctx, dectx')
         | (None, freed, dectx') \<Rightarrow>
             (case av_frame_alloc H of
                None \<Rightarrow> (None, freed, avctx, dectx')
              | Some fresh \<Rightarrow>
                  let frame = fresh\<lparr>frame_width := width spec,
                                    frame_height := height spec,
                                    frame_format := format\<rparr>
                  in (case av_frame_get_buffer H frame (alignment spec) of
                        None \<Rightarrow> (None, freed @ [frame], avctx, dectx')
                      | Some frame' \<Rightarrow> (Some frame', freed, avctx, dectx')))))"

text \<open>
  Lines 286-301: when the frame's size is not the visible size, a copy of the
  description is attached to the frame; the record for it is the last entry of the
  descriptor queue or comes from \<^verbatim>\<open>malloc\<close>. \<open>None\<close> is the jump to \<^verbatim>\<open>fallback\<close>.
\<close>

definition attach_spec_copy ::
  "host \<Rightarrow> DE265Context \<Rightarrow> de265_image_spec \<Rightarrow> AVFrame \<Rightarrow> AVFrame option \<times> DE265Context"
where
  "attach_spec_copy H dectx spec frame =
     (if frame_width frame \<noteq> visible_width spec \<or> frame_height frame \<noteq> visible_height spec
      then
        if length (spec_queue dectx) > 0
        then (Some (frame\<lparr>frame_opaque := Some spec\<rparr>),
              dectx\<lparr>spec_queue := butlast (spec_queue dectx)\<rparr>)
        else if malloc_spec H then (Some (frame\<lparr>frame_opaque := Some spec\<rparr>), dectx)
        else (None, dectx)
      else (Some frame, dectx))"

text \<open>
  The test \<^verbatim>\<open>(uintptr_t)data % spec->alignment\<close> of line 306 is a remainder of two
  \<^verbatim>\<open>uintptr_t\<close>: the pointer is cast, and the usual arithmetic conversions turn the
  \<^verbatim>\<open>int\<close> alignment into a \<^verbatim>\<open>uintptr_t\<close> as well, so that a negative alignment becomes a
  large positive divisor. \<^verbatim>\<open>uintptr_t\<close> is taken to be 64 bits wide.
\<close>

definition uintptr_t :: "int \<Rightarrow> int" where
  "uintptr_t x = x mod 2 ^ 64"

text \<open>
  The loop of lines 304-313, from plane \<open>i\<close> with \<open>n\<close> planes to go. It ends after the
  last plane, or with the jump to \<^verbatim>\<open>fallback\<close> at a plane whose address is not a multiple
  of the alignment, or in a division by zero when the alignment is 0; the planes before
  that one have been registered by then.
\<close>

datatype plane_loop_exit = Planes_set | Plane_misaligned | Plane_division_by_zero

fun set_image_planes ::
  "de265_image_spec \<Rightarrow> AVFrame \<Rightarrow> nat \<Rightarrow> nat
     \<Rightarrow> (nat \<times> int \<times> int \<times> AVFrame) list
     \<Rightarrow> plane_loop_exit \<times> (nat \<times> int \<times> int \<times> AVFrame) list"
where
  "set_image_planes spec frame i 0 planes = (Planes_set, planes)"
| "set_image_planes spec frame i (Suc n) planes =
     (if uintptr_t (alignment spec) = 0 then (Plane_division_by_zero, planes)
      else if uintptr_t (plane_data frame i) mod uintptr_t (alignment spec) \<noteq> 0
      then (Plane_misaligned, planes)
      else set_image_planes spec frame (Suc i) n
             (planes @ [(i, plane_data frame i, plane_linesize frame i, frame)]))"

text \<open>\<^verbatim>\<open>ff_libde265dec_get_buffer\<close>, lines 215-318.\<close>

definition ff_libde265dec_get_buffer ::
  "host \<Rightarrow> AVCodecContext \<Rightarrow> DE265Context \<Rightarrow> de265_image_spec \<Rightarrow> get_buffer_result"
where
  "ff_libde265dec_get_buffer H avctx dectx spec =
     (let fallback = (\<lambda>planes freed avctx' dectx'.
            \<lparr>gb_return = Default_get_buffer, gb_planes = planes, gb_freed = freed,
             gb_avctx = avctx', gb_dectx = dectx'\<rparr>)
      in
      if chroma spec \<noteq> de265_chroma_mono
         \<and> luma_bits_per_pixel spec \<noteq> chroma_bits_per_pixel spec
      then fallback [] [] avctx dectx
      else
        let bits_per_pixel = luma_bits_per_pixel spec;
            format = get_pixel_format (chroma spec) bits_per_pixel
        in
        if format = AV_PIX_FMT_NONE then fallback [] [] avctx dectx
        else if get_output_bits_per_pixel format \<noteq> bits_per_pixel
        then fallback [] [] avctx dectx
        else
          (case obtain_frame H avctx dectx spec format of
             (None, freed, avctx', dectx') \<Rightarrow> fallback [] freed avctx' dectx'
           | (Some frame, freed, avctx', dectx') \<Rightarrow>
               (case attach_spec_copy H dectx' spec frame of
                  (None, dectx'') \<Rightarrow> fallback [] (freed @ [frame]) avctx' dectx''
                | (Some frame', dectx'') \<Rightarrow>
                    let numplanes = (if chroma spec = de265_chroma_mono then 1 else 3) in
                    (case set_image_planes spec frame' 0 numplanes [] of
                       (Plane_misaligned, planes) \<Rightarrow>
                         fallback planes (freed @ [frame']) avctx' dectx''
                     | (Plane_division_by_zero, planes) \<Rightarrow>
                         \<lparr>gb_return = Division_by_zero, gb_planes = planes, gb_freed = freed,
                          gb_avctx = avctx', gb_dectx = dectx''\<rparr>
                     | (Planes_set, planes) \<Rightarrow>
                         \<lparr>gb_return = Returned 1, gb_planes = planes, gb_freed = freed,
                          gb_avctx = avctx', gb_dectx = dectx''\<rparr>))))"

text \<open>The three tests of lines 222-237 that look at the description alone.\<close>

definition spec_rejected :: "de265_image_spec \<Rightarrow> bool" where
  "spec_rejected spec \<longleftrightarrow>
     (chroma spec \<noteq> de265_chroma_mono \<and> luma_bits_per_pixel spec \<noteq> chroma_bits_per_pixel spec)
   \<or> get_pixel_format (chroma spec) (luma_bits_per_pixel spec) = AV_PIX_FMT_NONE
   \<or> get_output_bits_per_pixel (get_pixel_format (chroma spec) (luma_bits_per_pixel spec))
        \<noteq> luma_bits_per_pixel spec"



subsection \<open>Retrieving a picture that sits in a bridged frame\<close>

text \<open>
  Line 530-531: the offset added to the data pointer of plane \<open>i\<close>. \<^verbatim>\<open>x >> shift\<close> on a
  C \<^verbatim>\<open>int\<close> is \<open>drop_bit shift x\<close>.
\<close>

definition crop_offset :: "de265_image_spec \<Rightarrow> AVFrame \<Rightarrow> nat \<Rightarrow> int" where
  "crop_offset spec picture i =
     (let shift = (if i = 0 then 0 else 1) in
      drop_bit shift (crop_left spec) + drop_bit shift (crop_top spec) * plane_linesize picture i)"

text \<open>
  Lines 503 and 520-535 of \<^verbatim>\<open>ff_libde265dec_decode\<close>, for a picture whose plane 0 carries
  the frame \<open>frame\<close>: the outgoing picture is a reference to the frame; if a description
  is attached it is detached from the frame, the picture is cropped and the descriptor
  is recycled. The result is the picture, the frame, the freed descriptors and the
  context. \<open>frame_data\<close> is the array \<^verbatim>\<open>data[AV_NUM_DATA_POINTERS]\<close>, a list of 8 addresses.
\<close>

definition reference_frame ::
  "DE265Context \<Rightarrow> de265_chroma \<Rightarrow> AVFrame
     \<Rightarrow> AVFrame \<times> AVFrame \<times> de265_image_spec list \<times> DE265Context"
where
  "reference_frame ctx chroma_format frame =
     (let numplanes = (if chroma_format = de265_chroma_mono then 1 else 3) in
      case frame_opaque frame of
        None \<Rightarrow> (frame, frame, [], ctx)
      | Some spec \<Rightarrow>
          let picture = frame\<lparr>frame_width := visible_width spec,
                              frame_height := visible_height spec\<rparr>;
              picture' = fold (\<lambda>i pic. pic\<lparr>frame_data :=
                            (frame_data pic)[i := plane_data pic i + crop_offset spec pic i]\<rparr>)
                          [0 ..< numplanes] picture
          in (case free_spec ctx spec of
                (ctx', freed) \<Rightarrow> (picture', frame\<lparr>frame_opaque := None\<rparr>, freed, ctx')))"


subsection \<open>Concrete inputs for the worked instances\<close>





definition example_spec_444 :: de265_image_spec where
  "example_spec_444 =
     \<lparr>chroma = de265_chroma_444, luma_bits_per_pixel = 8, chroma_bits_per_pixel = 8,
      width = 32, height = 16, visible_width = 28, visible_height = 14,
      crop_left = 4, crop_top = 2, alignment = 16\<rparr>"

definition example_frame_444 :: AVFrame where
  "example_frame_444 =
     \<lparr>frame_width = 32, frame_height = 16, frame_format = AV_PIX_FMT_YUV444P,
      frame_opaque = Some example_spec_444,
      frame_data = [1024, 2048, 3072, 0, 0, 0, 0, 0],
      frame_linesize = [32, 32, 32, 0, 0, 0, 0, 0]\<rparr>"

subsection \<open>Copying a picture out of the engine's own storage\<close>

text \<open>
  Plane storage is a list of bytes, addressed from the plane's base pointer. The loops
  below read and write it through \<^verbatim>\<open>uint16_t *\<close>; the model takes the host to be
  little-endian, as the pixel formats of this file are. A write beyond the end of the
  list is dropped and a read beyond it is unspecified; both are outside the buffers in C.
  Strides and line sizes are natural numbers: buffers that run forwards in memory.
\<close>

definition rd16 :: "byte list \<Rightarrow> nat \<Rightarrow> 16 word" where
  "rd16 m a = push_bit 8 (ucast (m ! Suc a)) OR ucast (m ! a)"

definition wr16 :: "byte list \<Rightarrow> nat \<Rightarrow> 16 word \<Rightarrow> byte list" where
  "wr16 m a v = (m[a := ucast v])[Suc a := ucast (drop_bit 8 v)]"

text \<open>
  The inner loops of lines 584-588 and 599-603 (\<open>f\<close> is the shift, \<open>n\<close> is \<^verbatim>\<open>size/2\<close>):
  \<open>s\<close> and \<open>d\<close> are the byte offsets of the two \<^verbatim>\<open>uint16_t\<close> pointers.
\<close>

fun line_16_to_16 ::
  "(16 word \<Rightarrow> 16 word) \<Rightarrow> byte list \<Rightarrow> nat \<Rightarrow> byte list \<Rightarrow> nat \<Rightarrow> nat \<Rightarrow> byte list"
where
  "line_16_to_16 f src s dst d 0 = dst"
| "line_16_to_16 f src s dst d (Suc n) =
     line_16_to_16 f src (s + 2) (wr16 dst d (f (rd16 src s))) (d + 2) n"

text \<open>
  The inner loop of lines 613-617: the source pointer is a \<^verbatim>\<open>uint8_t *\<close>, the destination
  a \<^verbatim>\<open>uint16_t *\<close>, and the count is \<^verbatim>\<open>size\<close>.
\<close>

fun line_8_to_16 ::
  "(16 word \<Rightarrow> 16 word) \<Rightarrow> byte list \<Rightarrow> nat \<Rightarrow> byte list \<Rightarrow> nat \<Rightarrow> nat \<Rightarrow> byte list"
where
  "line_8_to_16 f src s dst d 0 = dst"
| "line_8_to_16 f src s dst d (Suc n) =
     line_8_to_16 f src (s + 1) (wr16 dst d (f (ucast (src ! s)))) (d + 2) n"

text \<open>\<^verbatim>\<open>memcpy\<close> of \<open>n\<close> bytes, byte by byte.\<close>

fun memcpy :: "byte list \<Rightarrow> nat \<Rightarrow> byte list \<Rightarrow> nat \<Rightarrow> nat \<Rightarrow> byte list" where
  "memcpy dst d src s 0 = dst"
| "memcpy dst d src s (Suc n) = memcpy (dst[d := src ! s]) (Suc d) src (Suc s) n"

text \<open>
  The loop over the lines of a plane (lines 581-591, 596-606, 610-620): after each line
  \<^verbatim>\<open>src_ptr += stride[i]\<close> and \<^verbatim>\<open>dst_ptr += picture->linesize[i]\<close>.
\<close>

fun plane_lines ::
  "(byte list \<Rightarrow> nat \<Rightarrow> byte list \<Rightarrow> nat \<Rightarrow> byte list)
     \<Rightarrow> byte list \<Rightarrow> nat \<Rightarrow> nat \<Rightarrow> byte list \<Rightarrow> nat \<Rightarrow> nat \<Rightarrow> nat \<Rightarrow> byte list"
where
  "plane_lines line src s stride dst d linesize 0 = dst"
| "plane_lines line src s stride dst d linesize (Suc h) =
     plane_lines line src (s + stride) stride (line src s dst d) (d + linesize) linesize h"

text \<open>
  \<^verbatim>\<open>av_image_copy_plane\<close> belongs to the host library, not to the repository; after its
  documentation it copies \<open>bytewidth\<close> bytes of each of \<open>h\<close> lines.
\<close>

definition av_image_copy_plane ::
  "byte list \<Rightarrow> nat \<Rightarrow> byte list \<Rightarrow> nat \<Rightarrow> nat \<Rightarrow> nat \<Rightarrow> byte list"
where
  "av_image_copy_plane dst dst_linesize src src_linesize bytewidth h =
     plane_lines (\<lambda>src s dst d. memcpy dst d src s bytewidth) src 0 src_linesize dst 0 dst_linesize h"

text \<open>
  One plane of the engine's picture: what \<^verbatim>\<open>de265_get_image_plane\<close>,
  \<^verbatim>\<open>de265_get_image_width\<close>, \<^verbatim>\<open>de265_get_image_height\<close> and \<^verbatim>\<open>de265_get_bits_per_pixel\<close>
  return for it.
\<close>

record image_plane =
  plane_bytes :: "byte list"
  plane_stride :: nat
  plane_width :: nat
  plane_height :: nat
  plane_bits_per_pixel :: int

text \<open>
  The body of the loop over the planes, lines 572-626; the destination plane is its
  storage and its line size.
\<close>

definition convert_plane :: "int \<Rightarrow> image_plane \<Rightarrow> byte list \<times> nat \<Rightarrow> byte list" where
  "convert_plane max_bits_per_pixel p dst_plane =
     (case dst_plane of (dst, linesize) \<Rightarrow>
        let plane_bits = plane_bits_per_pixel p;
            size = min (plane_stride p) linesize
        in
        if plane_bits > max_bits_per_pixel then
          let shift = nat (plane_bits - max_bits_per_pixel) in
          plane_lines (\<lambda>src s dst d. line_16_to_16 (drop_bit shift) src s dst d (size div 2))
            (plane_bytes p) 0 (plane_stride p) dst 0 linesize (plane_height p)
        else if plane_bits < max_bits_per_pixel \<and> plane_bits > 8 then
          let shift = nat (max_bits_per_pixel - plane_bits) in
          plane_lines (\<lambda>src s dst d. line_16_to_16 (push_bit shift) src s dst d (size div 2))
            (plane_bytes p) 0 (plane_stride p) dst 0 linesize (plane_height p)
        else if plane_bits < max_bits_per_pixel \<and> plane_bits = 8 then
          let shift = nat (max_bits_per_pixel - plane_bits) in
          plane_lines (\<lambda>src s dst d. line_8_to_16 (push_bit shift) src s dst d size)
            (plane_bytes p) 0 (plane_stride p) dst 0 linesize (plane_height p)
        else
          av_image_copy_plane dst linesize (plane_bytes p) (plane_stride p) size (plane_height p))"

text \<open>
  \<^verbatim>\<open>av_image_copy\<close> belongs to the host library as well. After its documentation and
  the pixel format descriptors it copies, for each plane, the bytes of the plane's width
  in that format on each of the plane's lines, with no conversion of samples.
\<close>

fun log2_chroma_w :: "AVPixelFormat \<Rightarrow> nat" where
  "log2_chroma_w fmt =
     (if fmt \<in> {AV_PIX_FMT_YUV420P, AV_PIX_FMT_YUV420P9LE, AV_PIX_FMT_YUV420P10LE,
                 AV_PIX_FMT_YUV420P12LE, AV_PIX_FMT_YUV420P14LE, AV_PIX_FMT_YUV420P16LE,
                 AV_PIX_FMT_YUV422P, AV_PIX_FMT_YUV422P9LE, AV_PIX_FMT_YUV422P10LE,
                 AV_PIX_FMT_YUV422P12LE, AV_PIX_FMT_YUV422P14LE, AV_PIX_FMT_YUV422P16LE}
      then 1 else 0)"

fun log2_chroma_h :: "AVPixelFormat \<Rightarrow> nat" where
  "log2_chroma_h fmt =
     (if fmt \<in> {AV_PIX_FMT_YUV420P, AV_PIX_FMT_YUV420P9LE, AV_PIX_FMT_YUV420P10LE,
                 AV_PIX_FMT_YUV420P12LE, AV_PIX_FMT_YUV420P14LE, AV_PIX_FMT_YUV420P16LE}
      then 1 else 0)"

definition bytes_per_sample :: "AVPixelFormat \<Rightarrow> nat" where
  "bytes_per_sample fmt = (if get_output_bits_per_pixel fmt \<le> 8 then 1 else 2)"

definition av_image_get_linesize :: "AVPixelFormat \<Rightarrow> nat \<Rightarrow> nat \<Rightarrow> nat" where
  "av_image_get_linesize fmt w i =
     (let s = (if i = 1 \<or> i = 2 then log2_chroma_w fmt else 0)
      in drop_bit s (w + (2 ^ s - 1)) * bytes_per_sample fmt)"

definition planes_nb :: "AVPixelFormat \<Rightarrow> nat" where
  "planes_nb fmt = (if fmt = AV_PIX_FMT_GRAY8 then 1 else 3)"

definition av_image_copy ::
  "(byte list \<times> nat) list \<Rightarrow> (byte list \<times> nat) list \<Rightarrow> AVPixelFormat \<Rightarrow> nat \<Rightarrow> nat
     \<Rightarrow> byte list list"
where
  "av_image_copy dsts srcs fmt w h =
     map (\<lambda>i. case (dsts ! i, srcs ! i) of
                 ((dst, dst_linesize), (src, src_linesize)) \<Rightarrow>
                   av_image_copy_plane dst dst_linesize src src_linesize
                     (av_image_get_linesize fmt w i)
                     (if i = 1 \<or> i = 2
                      then drop_bit (log2_chroma_h fmt) (h + (2 ^ log2_chroma_h fmt - 1))
                      else h))
       [0 ..< min (planes_nb fmt) (min (length dsts) (length srcs))]"

text \<open>The loop of lines 558-564 over the strides of the planes.\<close>

fun equal_strides :: "nat list \<Rightarrow> bool" where
  "equal_strides (a # b # rest) = (a = b \<and> equal_strides (b # rest))"
| "equal_strides strides = True"

text \<open>
  Lines 558-628: \<open>format\<close> is the negotiated output format, \<open>w\<close> and \<open>h\<close> the size of
  plane 0, \<open>img\<close> the planes of the engine's picture and \<open>picture\<close> the planes of the
  outgoing frame. The result is the storage of the outgoing planes.
\<close>

definition copy_picture ::
  "AVPixelFormat \<Rightarrow> nat \<Rightarrow> nat \<Rightarrow> image_plane list \<Rightarrow> (byte list \<times> nat) list \<Rightarrow> byte list list"
where
  "copy_picture format w h img picture =
     (if equal_strides (map plane_stride img) then
        av_image_copy picture (map (\<lambda>p. (plane_bytes p, plane_stride p)) img) format w h
      else
        let max_bits_per_pixel = get_output_bits_per_pixel format in
        map (\<lambda>i. convert_plane max_bits_per_pixel (img ! i) (picture ! i))
          [0 ..< min (length img) (length picture)])"

text \<open>A plane of one line with the two 11-bit samples 2047 and 1.\<close>

definition example_plane_11 :: image_plane where
  "example_plane_11 =
     \<lparr>plane_bytes = [255, 7, 1, 0], plane_stride = 4, plane_width = 2, plane_height = 1,
      plane_bits_per_pixel = 11\<rparr>"

subsection \<open>Sequences of operations on the two queues\<close>



text \<open>Both queues within their capacity of 16.\<close>

definition pools_bounded :: "DE265Context \<Rightarrow> bool" where
  "pools_bounded ctx \<longleftrightarrow>
     length (frame_queue ctx) \<le> MAX_FRAME_QUEUE \<and> length (spec_queue ctx) \<le> MAX_SPEC_QUEUE"

section \<open>Properties\<close>

subsection \<open>Pixel format resolution\<close>

text \<open>
  Claim C7. At every exact grid point (monochrome at 8 bits; 4:2:0, 4:2:2 and 4:4:4 at
  8, 9, 10, 12, 14 and 16 bits) \<open>get_pixel_format\<close> returns the format of that name, and
  \<open>get_output_bits_per_pixel\<close> of that format is the bit depth that went in.
\<close>

theorem get_pixel_format_grid_roundtrip:
  "get_pixel_format de265_chroma_mono 8 = AV_PIX_FMT_GRAY8
   \<and> get_pixel_format de265_chroma_420 8 = AV_PIX_FMT_YUV420P
   \<and> get_pixel_format de265_chroma_420 9 = AV_PIX_FMT_YUV420P9LE
   \<and> get_pixel_format de265_chroma_420 10 = AV_PIX_FMT_YUV420P10LE
   \<and> get_pixel_format de265_chroma_420 12 = AV_PIX_FMT_YUV420P12LE
   \<and> get_pixel_format de265_chroma_420 14 = AV_PIX_FMT_YUV420P14LE
   \<and> get_pixel_format de265_chroma_420 16 = AV_PIX_FMT_YUV420P16LE
   \<and> get_pixel_format de265_chroma_422 8 = AV_PIX_FMT_YUV422P
   \<and> get_pixel_format de265_chroma_422 9 = AV_PIX_FMT_YUV422P9LE
   \<and> get_pixel_format de265_chroma_422 10 = AV_PIX_FMT_YUV422P10LE
   \<and> get_pixel_format de265_chroma_422 12 = AV_PIX_FMT_YUV422P12LE
   \<and> get_pixel_format de265_chroma_422 14 = AV_PIX_FMT_YUV422P14LE
   \<and> get_pixel_format de265_chroma_422 16 = AV_PIX_FMT_YUV422P16LE
   \<and> get_pixel_format de265_chroma_444 8 = AV_PIX_FMT_YUV444P
   \<and> get_pixel_format de265_chroma_444 9 = AV_PIX_FMT_YUV444P9LE
   \<and> get_pixel_format de265_chroma_444 10 = AV_PIX_FMT_YUV444P10LE
   \<and> get_pixel_format de265_chroma_444 12 = AV_PIX_FMT_YUV444P12LE
   \<and> get_pixel_format de265_chroma_444 14 = AV_PIX_FMT_YUV444P14LE
   \<and> get_pixel_format de265_chroma_444 16 = AV_PIX_FMT_YUV444P16LE
   \<and> get_output_bits_per_pixel (get_pixel_format de265_chroma_mono 8) = 8
   \<and> list_all (\<lambda>c. list_all (\<lambda>b. get_output_bits_per_pixel (get_pixel_format c b) = b)
         [8, 9, 10, 12, 14, 16])
       [de265_chroma_420, de265_chroma_422, de265_chroma_444]"
  by simp




subsection \<open>Length-prefixed packets\<close>

lemma length_be_bytes [simp]: "length (be_bytes len n) = len"
  by (induction len arbitrary: n) auto

lemma word_of_low_byte:
  "push_bit 8 (of_nat (n div 256) :: 32 word) OR ucast (of_nat n :: byte) = of_nat n"
proof -
  have d: "n div 256 = drop_bit 8 n"
    by (simp add: drop_bit_eq_div)
  show ?thesis
    unfolding d by (rule bit_word_eqI) (auto simp: bit_simps)
qed

lemma be_word_be_bytes:
  "n < 2 ^ (8 * len) \<Longrightarrow> be_word (be_bytes len n) = of_nat n"
proof (induction len arbitrary: n)
  case 0
  then show ?case by (simp add: be_word_def)
next
  case (Suc len)
  then have "n < 2 ^ (8 * len) * 256"
    by (simp add: power_add)
  then have "n div 256 < 2 ^ (8 * len)"
    by (rule less_mult_imp_div_less)
  from Suc.IH [OF this] show ?case
    by (simp add: be_word_def word_of_low_byte)
qed

lemma take_drop_map_nth:
  "p + n \<le> length xs \<Longrightarrow> take n (drop p xs) = map (\<lambda>i. xs ! (p + i)) [0 ..< n]"
  by (rule nth_equalityI) simp_all

lemma read_nal_size_be_word:
  assumes "0 \<le> pos" "0 \<le> len" "pos + len \<le> int (length pkt)"
  shows "read_nal_size pkt pos len = be_word (take (nat len) (drop (nat pos) pkt))"
proof -
  have le: "nat pos + nat len \<le> length pkt"
    using assms by linarith
  have idx: "nat (pos + int i) = nat pos + i" for i
    using assms(1) by linarith
  show ?thesis
    unfolding read_nal_size_def be_word_def take_drop_map_nth [OF le] fold_map idx
    by (simp add: comp_def)
qed

lemma length_nal_calls [simp]: "length (nal_calls len pts pos ps) = length ps"
  by (induction ps arbitrary: pos) auto

lemma call_bytes_nal_calls:
  "map (call_bytes (pre @ nal_records len ps)) (nal_calls len pts (int (length pre)) ps) = ps"
proof (induction ps arbitrary: pre)
  case Nil
  then show ?case by simp
next
  case (Cons p ps)
  have "map (call_bytes ((pre @ be_bytes len (length p) @ p) @ nal_records len ps))
          (nal_calls len pts (int (length (pre @ be_bytes len (length p) @ p))) ps) = ps"
    by (rule Cons.IH)
  then show ?case
    by (simp add: add.assoc nat_add_distrib flip: of_nat_add)
qed

text \<open>
  The loop on a packet whose tail, from the present position on, is a sequence of
  records: one step of the loop per record.
\<close>

lemma push_nal_units_records:
  assumes "0 < len" "len \<le> 4"
    and "\<forall>p \<in> set ps. length p < 2 ^ (8 * len) \<and> length p < 2 ^ 31"
    and "accepted E (decoder ctx) (nal_calls len pts (int (length pre)) ps)"
  shows "push_nal_units E (pre @ nal_records len ps) (int len) pts (int (length pre)) ctx =
           Some (None, ctx\<lparr>decoder := decoder ctx @ nal_calls len pts (int (length pre)) ps\<rparr>)"
  using assms
proof (induction ps arbitrary: pre ctx)
  case Nil
  then show ?case by (subst push_nal_units.simps) simp
next
  case (Cons p ps)
  let ?pkt = "pre @ nal_records len (p # ps)"
  have rd: "read_nal_size ?pkt (int (length pre)) (int len) = of_nat (length p)"
    using Cons.prems by (simp add: read_nal_size_be_word be_word_be_bytes)
  have si: "sint (of_nat (length p) :: 32 word) = int (length p)"
    using Cons.prems by (simp add: signed_of_nat signed_take_bit_int_eq_self)
  let ?c = "Push_NAL Packet (int (length pre) + int len) (int (length p)) pts"
  let ?pre' = "pre @ be_bytes len (length p) @ p"
  let ?ctx' = "ctx\<lparr>decoder := decoder ctx @ [?c]\<rparr>"
  have ok: "E (decoder ctx) ?c = DE265_OK"
    and acc: "accepted E (decoder ?ctx') (nal_calls len pts (int (length ?pre')) ps)"
    using Cons.prems(4) by (simp_all add: add.assoc)
  have bnd: "\<forall>p \<in> set ps. length p < 2 ^ (8 * len) \<and> length p < 2 ^ 31"
    using Cons.prems(3) by simp
  have IH: "push_nal_units E (?pre' @ nal_records len ps) (int len) pts (int (length ?pre')) ?ctx' =
      Some (None, ?ctx'\<lparr>decoder := decoder ?ctx' @ nal_calls len pts (int (length ?pre')) ps\<rparr>)"
    by (rule Cons.IH [OF Cons.prems(1,2) bnd acc])
  have pkt: "?pkt = ?pre' @ nal_records len ps"
    by simp
  have step: "push_nal_units E ?pkt (int len) pts (int (length pre)) ctx =
      push_nal_units E ?pkt (int len) pts (int (length ?pre')) ?ctx'"
    apply (subst push_nal_units.simps)
    apply (simp only: rd si)
    apply (simp add: engine_call_def ok add.assoc Let_def)
    done
  show ?case
    unfolding step unfolding pkt IH by (simp add: add.assoc)
qed

lemma push_nal_units_stop:
  "int (length pkt) - pos < len \<Longrightarrow> push_nal_units E pkt len pts pos ctx = Some (None, ctx)"
  by (subst push_nal_units.simps) simp

lemma decode_packet_packetized:
  "pkt \<noteq> [] \<Longrightarrow> packetized ctx \<noteq> 0 \<Longrightarrow>
   decode_packet E pkt pkt_pts reordered_opaque ctx =
     push_nal_units E pkt (length_size ctx)
       (if pkt_pts \<noteq> AV_NOPTS_VALUE then pkt_pts else reordered_opaque) 0 ctx"
  by (simp add: decode_packet_def)

text \<open>
  Claim C8. Let the packet consist of the records of the payloads \<open>ps\<close>, with a length
  field of \<open>len\<close> bytes (1 to 4), every payload length fitting the field and a C
  \<^verbatim>\<open>int\<close>, and let the engine accept the submissions. Then the loop returns without
  error, having made exactly one \<open>Push_NAL\<close> call per record, in order, and the bytes the
  \<open>k\<close>-th call covers are the \<open>k\<close>-th payload. The loop stops, submitting nothing
  more, as soon as fewer than \<open>len\<close> bytes remain. For a packet that is not empty
  \<^verbatim>\<open>ff_libde265dec_decode\<close> runs this loop when the context is in packetized mode.
\<close>

theorem push_nal_units_well_formed:
  assumes "0 < len" "len \<le> 4"
    and "\<forall>p \<in> set ps. length p < 2 ^ (8 * len) \<and> length p < 2 ^ 31"
    and "accepted E (decoder ctx) (nal_calls len pts 0 ps)"
  shows "push_nal_units E (nal_records len ps) (int len) pts 0 ctx =
           Some (None, ctx\<lparr>decoder := decoder ctx @ nal_calls len pts 0 ps\<rparr>)
         \<and> length (nal_calls len pts 0 ps) = length ps
         \<and> map (call_bytes (nal_records len ps)) (nal_calls len pts 0 ps) = ps
         \<and> (\<forall>pkt pos c. int (length pkt) - pos < int len \<longrightarrow>
               push_nal_units E pkt (int len) pts pos c = Some (None, c))
         \<and> (ps \<noteq> [] \<and> packetized ctx \<noteq> 0 \<and> length_size ctx = int len \<longrightarrow>
               decode_packet E (nal_records len ps) pts r ctx =
                 (if pts \<noteq> AV_NOPTS_VALUE
                  then Some (None, ctx\<lparr>decoder := decoder ctx @ nal_calls len pts 0 ps\<rparr>)
                  else push_nal_units E (nal_records len ps) (int len) r 0 ctx))"
proof -
  have run: "push_nal_units E (nal_records len ps) (int len) pts 0 ctx =
      Some (None, ctx\<lparr>decoder := decoder ctx @ nal_calls len pts 0 ps\<rparr>)"
    using push_nal_units_records [of len ps E ctx pts "[]"] assms by simp
  have bytes: "map (call_bytes (nal_records len ps)) (nal_calls len pts 0 ps) = ps"
    using call_bytes_nal_calls [of "[]" len ps pts] by simp
  have stop: "\<forall>pkt pos c. int (length pkt) - pos < int len \<longrightarrow>
      push_nal_units E pkt (int len) pts pos c = Some (None, c)"
    by (simp add: push_nal_units_stop)
  have dec: "decode_packet E (nal_records len ps) pts r ctx =
      (if pts \<noteq> AV_NOPTS_VALUE
       then Some (None, ctx\<lparr>decoder := decoder ctx @ nal_calls len pts 0 ps\<rparr>)
       else push_nal_units E (nal_records len ps) (int len) r 0 ctx)"
    if "ps \<noteq> []" "packetized ctx \<noteq> 0" "length_size ctx = int len"
  proof -
    from that(1) obtain p ps' where "ps = p # ps'"
      by (cases ps) auto
    then have "length (nal_records len ps) > 0"
      using assms(1) by simp
    then have "nal_records len ps \<noteq> []"
      by blast
    from decode_packet_packetized [OF this that(2), of E pts r] show ?thesis
      by (simp add: that(3) run)
  qed
  from run bytes stop dec show ?thesis
    by (intro conjI impI) simp_all
qed

theorem push_nal_units_well_formed_witness:
  "nal_records 4 [[7], [8, 9]] = [0, 0, 0, 1, 7, 0, 0, 0, 2, 8, 9]
   \<and> push_nal_units (\<lambda>h c. DE265_OK) [0, 0, 0, 1, 7, 0, 0, 0, 2, 8, 9] 4 5 0
        ff_libde265dec_ctx_init =
      Some (None, ff_libde265dec_ctx_init
                    \<lparr>decoder := [Push_NAL Packet 4 1 5, Push_NAL Packet 9 2 5]\<rparr>)
   \<and> map (call_bytes [0, 0, 0, 1, 7, 0, 0, 0, 2, 8, 9])
        [Push_NAL Packet 4 1 5, Push_NAL Packet 9 2 5] = [[7], [8, 9]]"
proof -
  have pkt: "nal_records 4 [[7], [8, 9]] = [0, 0, 0, 1, 7, 0, 0, 0, 2, 8, 9]"
    by code_simp
  have h1: "(0::nat) < 4" and h2: "(4::nat) \<le> 4"
    by simp_all
  have h3: "\<forall>p \<in> set [[7], [8, 9 :: byte]]. length p < 2 ^ (8 * 4) \<and> length p < 2 ^ 31"
    by simp
  have h4: "accepted (\<lambda>h c. DE265_OK) (decoder ff_libde265dec_ctx_init)
              (nal_calls 4 5 0 [[7], [8, 9]])"
    by simp
  have calls: "nal_calls 4 5 0 [[7], [8, 9 :: byte]] =
      [Push_NAL Packet 4 1 5, Push_NAL Packet 9 2 5]"
    by simp
  note w = push_nal_units_well_formed [OF h1 h2 h3 h4, of 0]
  from w have "push_nal_units (\<lambda>h c. DE265_OK) (nal_records 4 [[7], [8, 9]]) (int 4) 5 0
      ff_libde265dec_ctx_init =
      Some (None, ff_libde265dec_ctx_init
        \<lparr>decoder := decoder ff_libde265dec_ctx_init @ nal_calls 4 5 0 [[7], [8, 9]]\<rparr>)"
    by (rule conjunct1)
  then have run: "push_nal_units (\<lambda>h c. DE265_OK) [0, 0, 0, 1, 7, 0, 0, 0, 2, 8, 9] 4 5 0
      ff_libde265dec_ctx_init =
      Some (None, ff_libde265dec_ctx_init
        \<lparr>decoder := [Push_NAL Packet 4 1 5, Push_NAL Packet 9 2 5]\<rparr>)"
    unfolding pkt calls by (simp add: ff_libde265dec_ctx_init_def)
  have bytes: "map (call_bytes [0, 0, 0, 1, 7, 0, 0, 0, 2, 8, 9])
      [Push_NAL Packet 4 1 5, Push_NAL Packet 9 2 5] = [[7], [8, 9 :: byte]]"
    by simp
  from pkt run bytes show ?thesis
    by (intro conjI)
qed

text \<open>
  Claim C1 does not hold of the code: the loop of lines 442-455 compares the declared
  length with nothing. With the context as initialised and no out-of-band block, the
  five-byte packet \<open>00 00 00 05 AA\<close> declares a unit of 5 bytes where 1 byte remains;
  the engine is handed offset 4 and length 5, that is, 4 bytes beyond the packet, and if
  it answers \<open>DE265_OK\<close> no error is returned. (The parser of the out-of-band block, lines
  404-407, does make this check.)
\<close>

theorem truncated_record_is_submitted:
  "decode_input (\<lambda>h c. DE265_OK) [] [0, 0, 0, 5, 170] 0 0 ff_libde265dec_ctx_init =
     Some (None, ff_libde265dec_ctx_init
                   \<lparr>check_extra := 0, decoder := [Push_NAL Packet 4 5 0]\<rparr>)
   \<and> int (length [0, 0, 0, 5, 170 :: byte]) < 4 + 5"
  by code_simp


subsection \<open>Framing without an out-of-band block\<close>

text \<open>The loop changes nothing in the context but the engine, and submits NAL units only.\<close>

lemma push_nal_units_calls:
  assumes "push_nal_units E pkt len pts pos ctx = Some r"
  shows "\<exists>cs. snd r = ctx\<lparr>decoder := decoder ctx @ cs\<rparr> \<and> (\<forall>c \<in> set cs. \<not> is_Push_data c)"
  using assms
proof (induction E pkt len pts pos ctx r rule: push_nal_units.raw_induct [rotated 1, consumes 1])
  case (1 rec E pkt len pts pos ctx r)
  let ?n = "sint (read_nal_size pkt pos len)"
  let ?c = "Push_NAL Packet (pos + len) ?n pts"
  let ?ctx' = "ctx\<lparr>decoder := decoder ctx @ [?c]\<rparr>"
  have nil: "\<exists>cs. ctx = ctx\<lparr>decoder := decoder ctx @ cs\<rparr> \<and> (\<forall>c \<in> set cs. \<not> is_Push_data c)"
    by (rule exI [of _ "[]"]) simp
  have one: "\<exists>cs. ?ctx' = ctx\<lparr>decoder := decoder ctx @ cs\<rparr> \<and> (\<forall>c \<in> set cs. \<not> is_Push_data c)"
    by (rule exI [of _ "[?c]"]) simp
  show ?case
  proof (cases "pos + len \<le> int (length pkt)")
    case False
    with "1.hyps" have "r = (None, ctx)" by simp
    with nil show ?thesis by simp
  next
    case in_range: True
    show ?thesis
    proof (cases "pos < 0 \<and> 0 < len")
      case True
      with in_range "1.hyps" have "r = (Some Read_outside_buffer, ctx)" by simp
      with nil show ?thesis by simp
    next
      case inside: False
      have body: "(if E (decoder ctx) ?c \<noteq> DE265_OK then Some (Some AVERROR_INVALIDDATA, ?ctx')
                   else rec E pkt len pts (pos + len + ?n) ?ctx') = Some r"
        using "1.hyps" unfolding if_P [OF in_range] if_not_P [OF inside]
        by (simp add: engine_call_def Let_def)
      show ?thesis
      proof (cases "E (decoder ctx) ?c = DE265_OK")
        case False
        with body have "r = (Some AVERROR_INVALIDDATA, ?ctx')"
          by simp
        with one show ?thesis by simp
      next
        case True
        with body have "rec E pkt len pts (pos + len + ?n) ?ctx' = Some r"
          by simp
        from "1.IH" [OF this] obtain cs
          where r: "snd r = ?ctx'\<lparr>decoder := decoder ?ctx' @ cs\<rparr>"
            and cs: "\<forall>c \<in> set cs. \<not> is_Push_data c"
          by blast
        have "snd r = ctx\<lparr>decoder := decoder ctx @ (?c # cs)\<rparr>
                \<and> (\<forall>c \<in> set (?c # cs). \<not> is_Push_data c)"
          using r cs by simp
        then show ?thesis by blast
      qed
    qed
  qed
qed


lemma decode_extradata_empty:
  "decode_extradata E [] ctx = (None, ctx\<lparr>check_extra := 0\<rparr>)"
  by (cases ctx) (simp add: decode_extradata_def)

text \<open>
  Claim C10. The initialised context is in packetized mode with a 4-byte length field.
  With an empty out-of-band block, a call on a context in that mode examines no
  configuration and makes no call to the engine for it; a packet that is not empty is
  fed by the length-prefixed loop with a length field of 4 bytes; and whatever the call
  returns, the context is still in that mode afterwards and no \<open>Push_data\<close> call (the raw
  byte-stream submission) has been added. So the mode holds for every later packet.
  What the mode means for a packet: if the packet consists of the records of the
  payloads \<open>ps\<close>, each behind its length written big-endian in 4 bytes (payloads shorter
  than \<open>2 ^ 31\<close> bytes, an engine that accepts the submissions), the call returns
  without error, the engine has received exactly one \<open>Push_NAL\<close> call per record, in
  order, and the bytes the \<open>k\<close>-th call covers are the \<open>k\<close>-th payload.
\<close>

theorem no_extradata_length_prefixed:
  "packetized ff_libde265dec_ctx_init = 1 \<and> length_size ff_libde265dec_ctx_init = 4
   \<and> (packetized ctx = 1 \<and> length_size ctx = 4 \<longrightarrow>
        decode_extradata E [] ctx = (None, ctx\<lparr>check_extra := 0\<rparr>)
      \<and> (pkt \<noteq> [] \<longrightarrow>
            decode_input E [] pkt pkt_pts reordered_opaque ctx =
              push_nal_units E pkt 4
                (if pkt_pts \<noteq> AV_NOPTS_VALUE then pkt_pts else reordered_opaque) 0
                (ctx\<lparr>check_extra := 0\<rparr>))
      \<and> (decode_input E [] pkt pkt_pts reordered_opaque ctx = Some (e, ctx') \<longrightarrow>
            packetized ctx' = 1 \<and> length_size ctx' = 4
          \<and> (\<forall>c \<in> set (decoder ctx'). is_Push_data c \<longrightarrow> c \<in> set (decoder ctx)))
      \<and> (ps \<noteq> [] \<and> (\<forall>p \<in> set ps. length p < 2 ^ 31)
          \<and> accepted E (decoder ctx)
              (nal_calls 4 (if pkt_pts \<noteq> AV_NOPTS_VALUE then pkt_pts else reordered_opaque) 0 ps)
          \<longrightarrow>
            decode_input E [] (nal_records 4 ps) pkt_pts reordered_opaque ctx =
              Some (None, ctx\<lparr>check_extra := 0,
                              decoder := decoder ctx @
                                nal_calls 4 (if pkt_pts \<noteq> AV_NOPTS_VALUE then pkt_pts
                                             else reordered_opaque) 0 ps\<rparr>)
          \<and> length (nal_calls 4 (if pkt_pts \<noteq> AV_NOPTS_VALUE then pkt_pts
                                  else reordered_opaque) 0 ps) = length ps
          \<and> map (call_bytes (nal_records 4 ps))
              (nal_calls 4 (if pkt_pts \<noteq> AV_NOPTS_VALUE then pkt_pts
                            else reordered_opaque) 0 ps) = ps))"
proof -
  let ?pts = "if pkt_pts \<noteq> AV_NOPTS_VALUE then pkt_pts else reordered_opaque"
  have init: "packetized ff_libde265dec_ctx_init = 1" "length_size ff_libde265dec_ctx_init = 4"
    by (simp_all add: ff_libde265dec_ctx_init_def)
  have run: "decode_input E [] pkt pkt_pts reordered_opaque ctx =
      push_nal_units E pkt 4 ?pts 0 (ctx\<lparr>check_extra := 0\<rparr>)"
    if "packetized ctx = 1" "length_size ctx = 4" "pkt \<noteq> []" for pkt
    using that by (simp add: decode_input_def decode_extradata_empty decode_packet_packetized)
  have keep: "packetized ctx' = 1 \<and> length_size ctx' = 4
      \<and> (\<forall>c \<in> set (decoder ctx'). is_Push_data c \<longrightarrow> c \<in> set (decoder ctx))"
    if pk: "packetized ctx = 1" and ls: "length_size ctx = 4"
      and res: "decode_input E [] pkt pkt_pts reordered_opaque ctx = Some (e, ctx')"
  proof (cases "pkt = []")
    case True
    with res have "ctx' = ctx\<lparr>check_extra := 0, decoder := decoder ctx @ [Push_end_of_stream]\<rparr>"
      by (simp add: decode_input_def decode_extradata_empty decode_packet_def engine_call_def)
    with pk ls show ?thesis by auto
  next
    case False
    from run [OF pk ls False] res obtain cs
      where "snd (e, ctx') = (ctx\<lparr>check_extra := 0\<rparr>)\<lparr>decoder := decoder (ctx\<lparr>check_extra := 0\<rparr>) @ cs\<rparr>"
        and "\<forall>c \<in> set cs. \<not> is_Push_data c"
      using push_nal_units_calls by metis
    with pk ls show ?thesis by auto
  qed
  have records: "decode_input E [] (nal_records 4 ps) pkt_pts reordered_opaque ctx =
      Some (None, ctx\<lparr>check_extra := 0, decoder := decoder ctx @ nal_calls 4 ?pts 0 ps\<rparr>)"
    if pk: "packetized ctx = 1" and ls: "length_size ctx = 4" and ne: "ps \<noteq> []"
      and sz: "\<forall>p \<in> set ps. length p < 2 ^ 31"
      and acc: "accepted E (decoder ctx) (nal_calls 4 ?pts 0 ps)"
  proof -
    from ne obtain p ps' where "ps = p # ps'"
      by (cases ps) auto
    then have "length (nal_records 4 ps) > 0"
      by (simp add: length_be_bytes)
    then have nonempty: "nal_records 4 ps \<noteq> []"
      by blast
    have fits: "\<forall>p \<in> set ps. length p < 2 ^ (8 * 4) \<and> length p < 2 ^ 31"
    proof
      fix p assume "p \<in> set ps"
      with sz have "length p < 2 ^ 31" by blast
      moreover have "(2::nat) ^ 31 < 2 ^ (8 * 4)" by simp
      ultimately show "length p < 2 ^ (8 * 4) \<and> length p < 2 ^ 31"
        by (blast intro: less_trans)
    qed
    have acc': "accepted E (decoder (ctx\<lparr>check_extra := 0\<rparr>))
        (nal_calls 4 ?pts (int (length ([] :: byte list))) ps)"
      using acc by simp
    have "push_nal_units E ([] @ nal_records 4 ps) (int 4) ?pts (int (length ([] :: byte list)))
        (ctx\<lparr>check_extra := 0\<rparr>) =
      Some (None, (ctx\<lparr>check_extra := 0\<rparr>)\<lparr>decoder := decoder (ctx\<lparr>check_extra := 0\<rparr>)
          @ nal_calls 4 ?pts (int (length ([] :: byte list))) ps\<rparr>)"
      by (rule push_nal_units_records [OF _ _ fits acc']) simp_all
    then have "push_nal_units E (nal_records 4 ps) 4 ?pts 0 (ctx\<lparr>check_extra := 0\<rparr>) =
      Some (None, ctx\<lparr>check_extra := 0, decoder := decoder ctx @ nal_calls 4 ?pts 0 ps\<rparr>)"
      by simp
    with run [OF pk ls nonempty] show ?thesis
      by simp
  qed
  have count: "length (nal_calls 4 ?pts 0 ps) = length ps"
    by (rule length_nal_calls)
  have bytes: "map (call_bytes (nal_records 4 ps)) (nal_calls 4 ?pts 0 ps) = ps"
    using call_bytes_nal_calls [of "[]" 4 ps ?pts] by simp
  have extradata: "decode_extradata E [] ctx = (None, ctx\<lparr>check_extra := 0\<rparr>)"
    by (rule decode_extradata_empty)
  from init extradata run [of pkt] keep records count bytes show ?thesis
    by (intro conjI impI) blast+
qed

theorem no_extradata_length_prefixed_witness:
  "packetized ff_libde265dec_ctx_init = 1 \<and> length_size ff_libde265dec_ctx_init = 4
   \<and> nal_records 4 [[7, 7, 7], [8, 9]] = [0, 0, 0, 3, 7, 7, 7, 0, 0, 0, 2, 8, 9]
   \<and> decode_input (\<lambda>h c. DE265_OK) [] [0, 0, 0, 3, 7, 7, 7, 0, 0, 0, 2, 8, 9] 3 0
       ff_libde265dec_ctx_init =
       Some (None, ff_libde265dec_ctx_init
               \<lparr>check_extra := 0, decoder := [Push_NAL Packet 4 3 3, Push_NAL Packet 11 2 3]\<rparr>)
   \<and> map (call_bytes [0, 0, 0, 3, 7, 7, 7, 0, 0, 0, 2, 8, 9])
       [Push_NAL Packet 4 3 3, Push_NAL Packet 11 2 3] = [[7, 7, 7], [8, 9]]
   \<and> packetized (ff_libde265dec_ctx_init
       \<lparr>check_extra := 0, decoder := [Push_NAL Packet 4 3 3, Push_NAL Packet 11 2 3]\<rparr>) = 1
   \<and> length_size (ff_libde265dec_ctx_init
       \<lparr>check_extra := 0, decoder := [Push_NAL Packet 4 3 3, Push_NAL Packet 11 2 3]\<rparr>) = 4
   \<and> decode_input (\<lambda>h c. DE265_OK) [] [0, 0, 0, 2, 1, 2] 6 0
       (ff_libde265dec_ctx_init
          \<lparr>check_extra := 0, decoder := [Push_NAL Packet 4 3 3, Push_NAL Packet 11 2 3]\<rparr>) =
       Some (None, ff_libde265dec_ctx_init
               \<lparr>check_extra := 0,
                decoder := [Push_NAL Packet 4 3 3, Push_NAL Packet 11 2 3, Push_NAL Packet 4 2 6]\<rparr>)"
proof -
  let ?E = "\<lambda>(h :: de265_decoder_context) (c :: de265_call). DE265_OK"
  let ?ps = "[[7, 7, 7], [8, 9 :: byte]]"
  let ?qs = "[[1, 2 :: byte]]"
  let ?ctx1 = "ff_libde265dec_ctx_init
      \<lparr>check_extra := 0, decoder := [Push_NAL Packet 4 3 3, Push_NAL Packet 11 2 3]\<rparr>"
  have mode0: "packetized ff_libde265dec_ctx_init = 1 \<and> length_size ff_libde265dec_ctx_init = 4"
    by (simp add: ff_libde265dec_ctx_init_def)
  have mode1: "packetized ?ctx1 = 1 \<and> length_size ?ctx1 = 4"
    by (simp add: ff_libde265dec_ctx_init_def)
  have pkt: "nal_records 4 ?ps = [0, 0, 0, 3, 7, 7, 7, 0, 0, 0, 2, 8, 9]"
    by code_simp
  have pkt2: "nal_records 4 ?qs = [0, 0, 0, 2, 1, 2]"
    by code_simp
  have calls: "nal_calls 4 (if (3::int) \<noteq> AV_NOPTS_VALUE then 3 else 0) 0 ?ps =
      [Push_NAL Packet 4 3 3, Push_NAL Packet 11 2 3]"
    by (simp add: AV_NOPTS_VALUE_def)
  have calls2: "nal_calls 4 (if (6::int) \<noteq> AV_NOPTS_VALUE then 6 else 0) 0 ?qs =
      [Push_NAL Packet 4 2 6]"
    by (simp add: AV_NOPTS_VALUE_def)
  have h: "?ps \<noteq> [] \<and> (\<forall>p \<in> set ?ps. length p < 2 ^ 31)
      \<and> accepted ?E (decoder ff_libde265dec_ctx_init)
          (nal_calls 4 (if (3::int) \<noteq> AV_NOPTS_VALUE then 3 else 0) 0 ?ps)"
    unfolding calls by simp
  have h2: "?qs \<noteq> [] \<and> (\<forall>p \<in> set ?qs. length p < 2 ^ 31)
      \<and> accepted ?E (decoder ?ctx1)
          (nal_calls 4 (if (6::int) \<noteq> AV_NOPTS_VALUE then 6 else 0) 0 ?qs)"
    unfolding calls2 by simp
  from no_extradata_length_prefixed [of ff_libde265dec_ctx_init ?E "[]" 3 0 None
      ff_libde265dec_ctx_init ?ps] mode0 h
  have "decode_input ?E [] (nal_records 4 ?ps) 3 0 ff_libde265dec_ctx_init =
      Some (None, ff_libde265dec_ctx_init\<lparr>check_extra := 0,
        decoder := decoder ff_libde265dec_ctx_init @
          nal_calls 4 (if (3::int) \<noteq> AV_NOPTS_VALUE then 3 else 0) 0 ?ps\<rparr>)
    \<and> map (call_bytes (nal_records 4 ?ps))
        (nal_calls 4 (if (3::int) \<noteq> AV_NOPTS_VALUE then 3 else 0) 0 ?ps) = ?ps"
    by blast
  then have run: "decode_input ?E [] [0, 0, 0, 3, 7, 7, 7, 0, 0, 0, 2, 8, 9] 3 0
        ff_libde265dec_ctx_init = Some (None, ?ctx1)"
    and bytes: "map (call_bytes [0, 0, 0, 3, 7, 7, 7, 0, 0, 0, 2, 8, 9])
        [Push_NAL Packet 4 3 3, Push_NAL Packet 11 2 3] = ?ps"
    unfolding pkt calls by (simp_all add: ff_libde265dec_ctx_init_def)
  from no_extradata_length_prefixed [of ?ctx1 ?E "[]" 6 0 None ?ctx1 ?qs] mode1 h2
  have "decode_input ?E [] (nal_records 4 ?qs) 6 0 ?ctx1 =
      Some (None, ?ctx1\<lparr>check_extra := 0,
        decoder := decoder ?ctx1 @
          nal_calls 4 (if (6::int) \<noteq> AV_NOPTS_VALUE then 6 else 0) 0 ?qs\<rparr>)"
    by blast
  then have run2: "decode_input ?E [] [0, 0, 0, 2, 1, 2] 6 0 ?ctx1 =
      Some (None, ff_libde265dec_ctx_init
               \<lparr>check_extra := 0,
                decoder := [Push_NAL Packet 4 3 3, Push_NAL Packet 11 2 3, Push_NAL Packet 4 2 6]\<rparr>)"
    unfolding pkt2 calls2 by (simp add: ff_libde265dec_ctx_init_def)
  from mode0 pkt run bytes mode1 run2 show ?thesis
    by (intro conjI) simp_all
qed

subsection \<open>The out-of-band configuration block\<close>

lemma be16_eq:
  "be16 ed (int p) = int (be16_of (ed ! p) (ed ! Suc p))"
proof -
  have "push_bit 8 (uint (ed ! p)) OR uint (ed ! Suc p)
      = concat_bit 8 (uint (ed ! Suc p)) (uint (ed ! p))"
    by (simp add: concat_bit_def or.commute take_bit_int_eq_self uint_lt2p [where 'a = 8, simplified])
  also have "\<dots> = uint (ed ! Suc p) + 256 * uint (ed ! p)"
    by (simp add: concat_bit_eq push_bit_eq_mult take_bit_int_eq_self uint_lt2p [where 'a = 8, simplified])
  finally show ?thesis
    by (simp add: be16_def be16_of_def nat_add_distrib)
qed

lemma drop_two:
  "p + 2 \<le> length ed \<Longrightarrow> drop p ed = ed ! p # ed ! Suc p # drop (p + 2) ed"
  by (metis Cons_nth_drop_Suc Suc_le_lessD add_2_eq_Suc' add_Suc_right le_eq_less_or_eq less_Suc_eq nat_less_le Suc_lessD)


lemma extra_nals_short:
  "length ed < p + 2 \<Longrightarrow>
   extra_nals E ed (Suc n) (int p) ctx = (Some AVERROR_INVALIDDATA, int p, ctx)"
  by simp

lemma extra_nals_overrun:
  "p + 2 \<le> length ed \<Longrightarrow> length ed < p + 2 + be16_of (ed ! p) (ed ! Suc p) \<Longrightarrow>
   extra_nals E ed (Suc n) (int p) ctx = (Some AVERROR_INVALIDDATA, int p, ctx)"
  by (simp add: be16_eq Let_def)

lemma extra_nals_push:
  assumes "p + 2 + be16_of (ed ! p) (ed ! Suc p) \<le> length ed"
  shows "extra_nals E ed (Suc n) (int p) ctx =
    (if E (decoder ctx) (Push_NAL Extradata (int p + 2) (int (be16_of (ed ! p) (ed ! Suc p))) 0)
          \<noteq> DE265_OK
     then (Some AVERROR_INVALIDDATA, int p,
           ctx\<lparr>decoder := decoder ctx @
             [Push_NAL Extradata (int p + 2) (int (be16_of (ed ! p) (ed ! Suc p))) 0]\<rparr>)
     else extra_nals E ed n (int (p + 2 + be16_of (ed ! p) (ed ! Suc p)))
           (ctx\<lparr>decoder := decoder ctx @
             [Push_NAL Extradata (int p + 2) (int (be16_of (ed ! p) (ed ! Suc p))) 0]\<rparr>))"
  using assms by (simp add: be16_eq Let_def engine_call_def ac_simps)

lemma spec_nals_step:
  assumes "p + 2 \<le> length ed"
  shows "spec_nals (Suc n) (drop p ed) =
    (if p + 2 + be16_of (ed ! p) (ed ! Suc p) \<le> length ed then
       (case spec_nals n (drop (p + 2 + be16_of (ed ! p) (ed ! Suc p)) ed) of
          None \<Rightarrow> None
        | Some (ps, r) \<Rightarrow>
            Some (take (be16_of (ed ! p) (ed ! Suc p)) (drop (p + 2) ed) # ps, r))
     else None)"
proof -
  have le: "(be16_of (ed ! p) (ed ! Suc p) \<le> length ed - (p + 2))
      = (p + 2 + be16_of (ed ! p) (ed ! Suc p) \<le> length ed)"
    using assms by linarith
  show ?thesis
    unfolding drop_two [OF assms] spec_nals.simps length_drop le
    by (simp add: add.commute)
qed

lemma spec_nals_short:
  assumes "length ed < p + 2"
  shows "spec_nals (Suc n) (drop p ed) = None"
proof (cases "drop p ed")
  case Nil
  then show ?thesis by simp
next
  case (Cons x xs)
  from assms have "length (drop p ed) < 2"
    by simp
  with Cons have "xs = []"
    by simp
  with Cons show ?thesis by simp
qed

lemma extra_nals_error:
  "spec_nals n (drop p ed) = None \<Longrightarrow>
   fst (extra_nals E ed n (int p) ctx) = Some AVERROR_INVALIDDATA"
proof (induction n arbitrary: p ctx)
  case 0
  then show ?case by simp
next
  case (Suc n)
  let ?sz = "be16_of (ed ! p) (ed ! Suc p)"
  show ?case
  proof (cases "p + 2 \<le> length ed")
    case False
    then show ?thesis by (simp add: extra_nals_short)
  next
    case hdr: True
    show ?thesis
    proof (cases "p + 2 + ?sz \<le> length ed")
      case False
      then have "length ed < p + 2 + ?sz"
        by simp
      from extra_nals_overrun [OF hdr this] show ?thesis
        by (simp del: extra_nals.simps)
    next
      case True
      with Suc.prems hdr have "spec_nals n (drop (p + 2 + ?sz) ed) = None"
        by (simp add: spec_nals_step split: option.splits prod.splits)
      from Suc.IH [OF this] show ?thesis
        unfolding extra_nals_push [OF True] by simp
    qed
  qed
qed

lemma extra_nals_calls:
  "\<exists>cs. snd (snd (extra_nals E ed n (int p) ctx)) = ctx\<lparr>decoder := decoder ctx @ cs\<rparr>
     \<and> (\<forall>c \<in> set cs. in_buffer ed c \<and> is_Push_NAL c)"
proof (induction n arbitrary: p ctx)
  case 0
  have "snd (snd (extra_nals E ed 0 (int p) ctx)) = ctx\<lparr>decoder := decoder ctx @ []\<rparr>
      \<and> (\<forall>c \<in> set []. in_buffer ed c \<and> is_Push_NAL c)"
    by simp
  then show ?case by blast
next
  case (Suc n)
  let ?sz = "be16_of (ed ! p) (ed ! Suc p)"
  let ?c = "Push_NAL Extradata (int p + 2) (int ?sz) 0"
  let ?ctx' = "ctx\<lparr>decoder := decoder ctx @ [?c]\<rparr>"
  have nil: "\<exists>cs. ctx = ctx\<lparr>decoder := decoder ctx @ cs\<rparr>
      \<and> (\<forall>c \<in> set cs. in_buffer ed c \<and> is_Push_NAL c)"
    by (rule exI [of _ "[]"]) simp
  show ?case
  proof (cases "p + 2 \<le> length ed")
    case False
    with nil show ?thesis by (simp add: extra_nals_short)
  next
    case hdr: True
    show ?thesis
    proof (cases "p + 2 + ?sz \<le> length ed")
      case False
      then have "length ed < p + 2 + ?sz"
        by simp
      from extra_nals_overrun [OF hdr this] nil show ?thesis
        by (simp del: extra_nals.simps)
    next
      case True
      then have inb: "in_buffer ed ?c \<and> is_Push_NAL ?c"
        by simp
      show ?thesis
      proof (cases "E (decoder ctx) ?c = DE265_OK")
        case False
        have "?ctx' = ctx\<lparr>decoder := decoder ctx @ [?c]\<rparr>
            \<and> (\<forall>c \<in> set [?c]. in_buffer ed c \<and> is_Push_NAL c)"
          using inb by simp
        then have "\<exists>cs. ?ctx' = ctx\<lparr>decoder := decoder ctx @ cs\<rparr>
            \<and> (\<forall>c \<in> set cs. in_buffer ed c \<and> is_Push_NAL c)"
          by blast
        with False show ?thesis
          unfolding extra_nals_push [OF True] by simp
      next
        case ok: True
        from Suc.IH [of "p + 2 + ?sz" ?ctx'] obtain cs
          where r: "snd (snd (extra_nals E ed n (int (p + 2 + ?sz)) ?ctx'))
              = ?ctx'\<lparr>decoder := decoder ?ctx' @ cs\<rparr>"
            and cs: "\<forall>c \<in> set cs. in_buffer ed c \<and> is_Push_NAL c"
          by blast
        have "snd (snd (extra_nals E ed (Suc n) (int p) ctx))
              = ctx\<lparr>decoder := decoder ctx @ (?c # cs)\<rparr>
            \<and> (\<forall>c \<in> set (?c # cs). in_buffer ed c \<and> is_Push_NAL c)"
          unfolding extra_nals_push [OF True] using ok r cs inb by simp
        then show ?thesis by blast
      qed
    qed
  qed
qed


lemma extra_nals_parsed:
  "spec_nals n (drop p ed) = Some (ps, r) \<Longrightarrow> p \<le> length ed \<Longrightarrow>
   fst (extra_nals E ed n (int p) ctx) = None \<Longrightarrow>
   \<exists>cs q. extra_nals E ed n (int p) ctx = (None, int q, ctx\<lparr>decoder := decoder ctx @ cs\<rparr>)
     \<and> map (call_bytes ed) cs = ps \<and> r = drop q ed \<and> q \<le> length ed"
proof (induction n arbitrary: p ctx ps)
  case 0
  then have "extra_nals E ed 0 (int p) ctx = (None, int p, ctx\<lparr>decoder := decoder ctx @ []\<rparr>)
      \<and> map (call_bytes ed) [] = ps \<and> r = drop p ed \<and> p \<le> length ed"
    by auto
  then show ?case by blast
next
  case (Suc n)
  let ?sz = "be16_of (ed ! p) (ed ! Suc p)"
  let ?c = "Push_NAL Extradata (int p + 2) (int ?sz) 0"
  let ?ctx' = "ctx\<lparr>decoder := decoder ctx @ [?c]\<rparr>"
  have hdr: "p + 2 \<le> length ed"
    using Suc.prems(1) spec_nals_short [of ed p n] by (cases "p + 2 \<le> length ed") auto
  have fit: "p + 2 + ?sz \<le> length ed"
    using Suc.prems(1) unfolding spec_nals_step [OF hdr] by (simp split: if_splits)
  from Suc.prems(1) obtain ps' where
    tl: "spec_nals n (drop (p + 2 + ?sz) ed) = Some (ps', r)"
    and ps: "ps = take ?sz (drop (p + 2) ed) # ps'"
    unfolding spec_nals_step [OF hdr] using fit
    by (auto split: option.splits prod.splits)
  note step = extra_nals_push [OF fit, of E n ctx]
  have ok: "E (decoder ctx) ?c = DE265_OK"
    using Suc.prems(3) unfolding step by (auto split: if_splits)
  then have next_eq: "extra_nals E ed (Suc n) (int p) ctx
      = extra_nals E ed n (int (p + 2 + ?sz)) ?ctx'"
    unfolding step by simp
  with Suc.prems(3) have "fst (extra_nals E ed n (int (p + 2 + ?sz)) ?ctx') = None"
    by simp
  from Suc.IH [OF tl fit this] obtain cs q where
    res: "extra_nals E ed n (int (p + 2 + ?sz)) ?ctx'
        = (None, int q, ?ctx'\<lparr>decoder := decoder ?ctx' @ cs\<rparr>)"
    and bytes: "map (call_bytes ed) cs = ps'" and r: "r = drop q ed" and q: "q \<le> length ed"
    by blast
  have cb: "call_bytes ed ?c = take ?sz (drop (p + 2) ed)"
    by (simp add: nat_add_distrib)
  have "extra_nals E ed (Suc n) (int p) ctx
        = (None, int q, ctx\<lparr>decoder := decoder ctx @ (?c # cs)\<rparr>)
      \<and> map (call_bytes ed) (?c # cs) = ps \<and> r = drop q ed \<and> q \<le> length ed"
    unfolding next_eq res using bytes r q ps cb by simp
  then show ?case by blast
qed

lemma extra_nals_accepted:
  "\<forall>h c. E h c = DE265_OK \<Longrightarrow> spec_nals n (drop p ed) = Some (ps, r) \<Longrightarrow>
   fst (extra_nals E ed n (int p) ctx) = None"
proof (induction n arbitrary: p ctx ps)
  case 0
  then show ?case by simp
next
  case (Suc n)
  let ?sz = "be16_of (ed ! p) (ed ! Suc p)"
  have hdr: "p + 2 \<le> length ed"
    using Suc.prems(2) spec_nals_short [of ed p n] by (cases "p + 2 \<le> length ed") auto
  have fit: "p + 2 + ?sz \<le> length ed"
    using Suc.prems(2) unfolding spec_nals_step [OF hdr] by (simp split: if_splits)
  from Suc.prems(2) obtain ps' where
    tl: "spec_nals n (drop (p + 2 + ?sz) ed) = Some (ps', r)"
    unfolding spec_nals_step [OF hdr] using fit
    by (auto split: option.splits prod.splits)
  let ?c = "Push_NAL Extradata (int p + 2) (int ?sz) 0"
  let ?ctx' = "ctx\<lparr>decoder := decoder ctx @ [?c]\<rparr>"
  have ok: "E (decoder ctx) ?c = DE265_OK"
    using Suc.prems(1) by blast
  have next_eq: "extra_nals E ed (Suc n) (int p) ctx
      = extra_nals E ed n (int (p + 2 + ?sz)) ?ctx'"
    unfolding extra_nals_push [OF fit] using ok by simp
  show ?case
    unfolding next_eq by (rule Suc.IH [OF Suc.prems(1) tl])
qed

lemma extra_nals_fst:
  "fst (extra_nals E ed n pos ctx) = None
   \<or> fst (extra_nals E ed n pos ctx) = Some AVERROR_INVALIDDATA"
  by (induction n arbitrary: pos ctx) (auto simp: Let_def split: prod.splits)


lemma drop_three:
  assumes "p + 3 \<le> length ed"
  shows "drop p ed = ed ! p # ed ! Suc p # ed ! Suc (Suc p) # drop (p + 3) ed"
proof -
  have "drop p ed = ed ! p # drop (Suc p) ed"
    using assms by (simp add: Cons_nth_drop_Suc)
  also have "drop (Suc p) ed = ed ! Suc p # ed ! Suc (Suc p) # drop (Suc p + 2) ed"
    using assms by (intro drop_two) simp
  finally show ?thesis
    by (simp add: numeral_3_eq_3)
qed

lemma extra_param_sets_short:
  "length ed < p + 3 \<Longrightarrow>
   extra_param_sets E ed (Suc g) (int p) ctx = (Some AVERROR_INVALIDDATA, ctx)"
  by simp

lemma extra_param_sets_step:
  "p + 3 \<le> length ed \<Longrightarrow>
   extra_param_sets E ed (Suc g) (int p) ctx =
     (case extra_nals E ed (be16_of (ed ! Suc p) (ed ! Suc (Suc p))) (int (p + 3)) ctx of
        (Some e, pos', ctx') \<Rightarrow> (Some e, ctx')
      | (None, pos', ctx') \<Rightarrow> extra_param_sets E ed g pos' ctx')"
  using be16_eq [of ed "Suc p"] by (simp add: Let_def ac_simps)

lemma spec_groups_short:
  assumes "length ed < p + 3"
  shows "spec_groups (Suc g) (drop p ed) = None"
proof -
  have "length (drop p ed) < 3"
    using assms by simp
  then consider "drop p ed = []" | x where "drop p ed = [x]" | x y where "drop p ed = [x, y]"
    by (cases "drop p ed" rule: remdups_adj.cases) auto
  then show ?thesis
    by cases simp_all
qed

lemma spec_groups_step:
  assumes "p + 3 \<le> length ed"
  shows "spec_groups (Suc g) (drop p ed) =
    (case spec_nals (be16_of (ed ! Suc p) (ed ! Suc (Suc p))) (drop (p + 3) ed) of
       None \<Rightarrow> None
     | Some (ps, r) \<Rightarrow>
         (case spec_groups g r of None \<Rightarrow> None | Some qs \<Rightarrow> Some (ps @ qs)))"
  unfolding drop_three [OF assms] by simp


lemma extra_param_sets_error:
  "spec_groups g (drop p ed) = None \<Longrightarrow> p \<le> length ed \<Longrightarrow>
   fst (extra_param_sets E ed g (int p) ctx) = Some AVERROR_INVALIDDATA"
proof (induction g arbitrary: p ctx)
  case 0
  then show ?case by simp
next
  case (Suc g)
  let ?cnt = "be16_of (ed ! Suc p) (ed ! Suc (Suc p))"
  let ?inner = "extra_nals E ed ?cnt (int (p + 3)) ctx"
  show ?case
  proof (cases "p + 3 \<le> length ed")
    case False
    then have "length ed < p + 3"
      by simp
    from extra_param_sets_short [OF this] show ?thesis
      by (simp del: extra_param_sets.simps)
  next
    case hdr: True
    note step = extra_param_sets_step [OF hdr, of E g ctx]
    from extra_nals_fst [of E ed ?cnt "int (p + 3)" ctx] show ?thesis
    proof
      assume err: "fst ?inner = Some AVERROR_INVALIDDATA"
      obtain e pos' ctx' where inner: "?inner = (e, pos', ctx')"
        by (cases ?inner)
      with err have "e = Some AVERROR_INVALIDDATA"
        by simp
      with inner show ?thesis
        unfolding step by simp
    next
      assume none: "fst ?inner = None"
      show ?thesis
      proof (cases "spec_nals ?cnt (drop (p + 3) ed)")
        case None
        from extra_nals_error [OF this, of E ctx] none show ?thesis
          by simp
      next
        case (Some a)
        obtain ps r where a: "a = (ps, r)"
          by (cases a)
        from Some a have sp: "spec_nals ?cnt (drop (p + 3) ed) = Some (ps, r)"
          by simp
        from extra_nals_parsed [OF sp hdr none] obtain cs q where
          res: "?inner = (None, int q, ctx\<lparr>decoder := decoder ctx @ cs\<rparr>)"
          and r: "r = drop q ed" and q: "q \<le> length ed"
          by blast
        from Suc.prems(1) sp have "spec_groups g r = None"
          unfolding spec_groups_step [OF hdr] by (simp split: option.splits)
        with r have "spec_groups g (drop q ed) = None"
          by simp
        from Suc.IH [OF this q] show ?thesis
          unfolding step res by simp
      qed
    qed
  qed
qed

lemma extra_param_sets_accepted:
  "\<forall>h c. E h c = DE265_OK \<Longrightarrow> spec_groups g (drop p ed) = Some nals \<Longrightarrow> p \<le> length ed \<Longrightarrow>
   \<exists>cs. extra_param_sets E ed g (int p) ctx = (None, ctx\<lparr>decoder := decoder ctx @ cs\<rparr>)
     \<and> map (call_bytes ed) cs = nals"
proof (induction g arbitrary: p ctx nals)
  case 0
  then have "extra_param_sets E ed 0 (int p) ctx = (None, ctx\<lparr>decoder := decoder ctx @ []\<rparr>)
      \<and> map (call_bytes ed) [] = nals"
    by simp
  then show ?case by blast
next
  case (Suc g)
  let ?cnt = "be16_of (ed ! Suc p) (ed ! Suc (Suc p))"
  let ?inner = "extra_nals E ed ?cnt (int (p + 3)) ctx"
  have hdr: "p + 3 \<le> length ed"
    using Suc.prems(2) spec_groups_short [of ed p g] by (cases "p + 3 \<le> length ed") auto
  note step = extra_param_sets_step [OF hdr, of E g ctx]
  from Suc.prems(2) obtain ps r qs where
    sp: "spec_nals ?cnt (drop (p + 3) ed) = Some (ps, r)"
    and sg: "spec_groups g r = Some qs" and nals: "nals = ps @ qs"
    unfolding spec_groups_step [OF hdr] by (auto split: option.splits prod.splits)
  have none: "fst ?inner = None"
    by (rule extra_nals_accepted [OF Suc.prems(1) sp])
  from extra_nals_parsed [OF sp hdr none] obtain cs q where
    res: "?inner = (None, int q, ctx\<lparr>decoder := decoder ctx @ cs\<rparr>)"
    and bytes: "map (call_bytes ed) cs = ps"
    and r: "r = drop q ed" and q: "q \<le> length ed"
    by blast
  from sg r have "spec_groups g (drop q ed) = Some qs"
    by simp
  from Suc.IH [OF Suc.prems(1) this q, of "ctx\<lparr>decoder := decoder ctx @ cs\<rparr>"] obtain cs' where
    res': "extra_param_sets E ed g (int q) (ctx\<lparr>decoder := decoder ctx @ cs\<rparr>)
        = (None, ctx\<lparr>decoder := decoder ctx @ cs, decoder := decoder (ctx\<lparr>decoder := decoder ctx @ cs\<rparr>) @ cs'\<rparr>)"
    and bytes': "map (call_bytes ed) cs' = qs"
    by blast
  have "extra_param_sets E ed (Suc g) (int p) ctx = (None, ctx\<lparr>decoder := decoder ctx @ (cs @ cs')\<rparr>)
      \<and> map (call_bytes ed) (cs @ cs') = nals"
    unfolding step res using res' bytes bytes' nals by simp
  then show ?case by blast
qed

lemma be16_nonneg: "0 \<le> be16 ed pos"
  by (simp add: be16_def)

lemma extra_nals_pos:
  "0 \<le> pos \<Longrightarrow> 0 \<le> fst (snd (extra_nals E ed n pos ctx))"
proof (induction n arbitrary: pos ctx)
  case 0
  then show ?case by simp
next
  case (Suc n)
  have "0 \<le> pos + 2 + be16 ed pos"
    using Suc.prems be16_nonneg [of ed pos] by linarith
  from Suc.IH [OF this] Suc.prems show ?case
    by (simp add: Let_def engine_call_def)
qed

lemma extra_param_sets_calls:
  "\<exists>cs. snd (extra_param_sets E ed g (int p) ctx) = ctx\<lparr>decoder := decoder ctx @ cs\<rparr>
     \<and> (\<forall>c \<in> set cs. in_buffer ed c \<and> is_Push_NAL c)"
proof (induction g arbitrary: p ctx)
  case 0
  have "snd (extra_param_sets E ed 0 (int p) ctx) = ctx\<lparr>decoder := decoder ctx @ []\<rparr>
      \<and> (\<forall>c \<in> set []. in_buffer ed c \<and> is_Push_NAL c)"
    by simp
  then show ?case by blast
next
  case (Suc g)
  let ?cnt = "be16_of (ed ! Suc p) (ed ! Suc (Suc p))"
  let ?inner = "extra_nals E ed ?cnt (int (p + 3)) ctx"
  have nil: "\<exists>cs. ctx = ctx\<lparr>decoder := decoder ctx @ cs\<rparr>
      \<and> (\<forall>c \<in> set cs. in_buffer ed c \<and> is_Push_NAL c)"
    by (rule exI [of _ "[]"]) simp
  show ?case
  proof (cases "p + 3 \<le> length ed")
    case False
    then have "length ed < p + 3"
      by simp
    from extra_param_sets_short [OF this] nil show ?thesis
      by (simp del: extra_param_sets.simps)
  next
    case hdr: True
    note step = extra_param_sets_step [OF hdr, of E g ctx]
    obtain e pos' ctx' where inner: "?inner = (e, pos', ctx')"
      by (cases ?inner)
    from extra_nals_calls [of E ed ?cnt "p + 3" ctx] inner obtain cs where
      ctx': "ctx' = ctx\<lparr>decoder := decoder ctx @ cs\<rparr>"
      and cs: "\<forall>c \<in> set cs. in_buffer ed c \<and> is_Push_NAL c"
      by auto
    show ?thesis
    proof (cases e)
      case (Some err)
      with inner have "snd (extra_param_sets E ed (Suc g) (int p) ctx) = ctx'"
        unfolding step by simp
      with ctx' cs show ?thesis by blast
    next
      case None
      have "0 \<le> pos'"
        using extra_nals_pos [of "int (p + 3)" E ed ?cnt ctx] inner by simp
      then obtain q where q: "pos' = int q"
        using nonneg_int_cases by blast
      from Suc.IH [of q ctx'] obtain cs' where
        r: "snd (extra_param_sets E ed g (int q) ctx') = ctx'\<lparr>decoder := decoder ctx' @ cs'\<rparr>"
        and cs': "\<forall>c \<in> set cs'. in_buffer ed c \<and> is_Push_NAL c"
        by blast
      have "snd (extra_param_sets E ed (Suc g) (int p) ctx) = ctx\<lparr>decoder := decoder ctx @ (cs @ cs')\<rparr>
          \<and> (\<forall>c \<in> set (cs @ cs'). in_buffer ed c \<and> is_Push_NAL c)"
        unfolding step inner using None q r ctx' cs cs' by auto
      then show ?thesis by blast
    qed
  qed
qed


lemma decode_extradata_structured_eq:
  assumes "check_extra ctx \<noteq> 0" "22 < length ed"
    and "ed ! 0 \<noteq> 0 \<or> ed ! 1 \<noteq> 0 \<or> 1 < ed ! 2"
  shows "decode_extradata E ed ctx =
    (case extra_param_sets E ed (unat (ed ! 22)) (int 23)
            (ctx\<lparr>check_extra := 0, packetized := 1, length_size := uint (ed ! 21 AND 3) + 1\<rparr>) of
       (Some e, ctx') \<Rightarrow> (Some e, ctx')
     | (None, ctx') \<Rightarrow> (None, ctx'\<lparr>decoder := decoder ctx' @ [Push_end_of_NAL]\<rparr>))"
proof -
  have ne: "ed \<noteq> []"
    using assms(2) by auto
  show ?thesis
    using assms ne
    by (auto simp: decode_extradata_def engine_call_def Let_def split: prod.splits option.splits)
qed

text \<open>
  Claim C6 as stated fails for a structured block of 4 to 22 bytes. The four bytes
  \<open>01 00 00 00\<close> are classified as a structured record (the context becomes packetized),
  yet nothing is parsed (there is no 22nd byte to read), the length-field width stays at
  its initial 4 and no error is returned: line 383 parses only when
  \<^verbatim>\<open>extradata_size > 22\<close>.
\<close>

theorem short_structured_block_counterexample:
  "length [1, 0, 0, 0 :: byte] < 22
   \<and> decode_extradata (\<lambda>h c. DE265_OK) [1, 0, 0, 0] ff_libde265dec_ctx_init =
       (None, ff_libde265dec_ctx_init
                \<lparr>check_extra := 0, packetized := 1, decoder := [Push_end_of_NAL]\<rparr>)
   \<and> length_size (ff_libde265dec_ctx_init
                \<lparr>check_extra := 0, packetized := 1, decoder := [Push_end_of_NAL]\<rparr>) = 4"
  by code_simp

text \<open>
  Claim C6, amended: for every block of more than 22 bytes that is classified as a
  structured record, examined on the first call. The context becomes packetized and the
  length-field width is the low two bits of the 22nd byte (index 21) plus 1. The 23rd
  byte (index 22) is the number of groups, and the bytes from index 23 on are read as
  \<open>spec_groups\<close> describes: per group one ignored byte and a 2-byte big-endian count,
  per NAL a 2-byte big-endian size and that many payload bytes. If that reading runs
  past the end of the block, the result is \<open>AVERROR_INVALIDDATA\<close>. If it succeeds and the
  engine accepts every unit, no error is returned and the calls made are one \<open>Push_NAL\<close>
  per unit, in order, each covering exactly the unit's payload bytes, followed by
  \<open>Push_end_of_NAL\<close>. In every case each call made lies inside the block.
\<close>

theorem decode_extradata_structured:
  assumes "check_extra ctx \<noteq> 0" "22 < length ed"
    and "ed ! 0 \<noteq> 0 \<or> ed ! 1 \<noteq> 0 \<or> 1 < ed ! 2"
  shows "packetized (snd (decode_extradata E ed ctx)) = 1
       \<and> length_size (snd (decode_extradata E ed ctx)) = uint (ed ! 21 AND 3) + 1
       \<and> (\<exists>cs. decoder (snd (decode_extradata E ed ctx)) = decoder ctx @ cs
             \<and> (\<forall>c \<in> set cs. in_buffer ed c))
       \<and> (spec_groups (unat (ed ! 22)) (drop 23 ed) = None \<longrightarrow>
             fst (decode_extradata E ed ctx) = Some AVERROR_INVALIDDATA)
       \<and> (\<forall>nals. spec_groups (unat (ed ! 22)) (drop 23 ed) = Some nals
               \<and> (\<forall>h c. E h c = DE265_OK) \<longrightarrow>
             fst (decode_extradata E ed ctx) = None
           \<and> (\<exists>cs. decoder (snd (decode_extradata E ed ctx)) = decoder ctx @ cs @ [Push_end_of_NAL]
                 \<and> map (call_bytes ed) cs = nals
                 \<and> (\<forall>c \<in> set cs. is_Push_NAL c \<and> in_buffer ed c)))"
proof -
  let ?ctx1 = "ctx\<lparr>check_extra := 0, packetized := 1, length_size := uint (ed ! 21 AND 3) + 1\<rparr>"
  let ?loop = "extra_param_sets E ed (unat (ed ! 22)) (int 23) ?ctx1"
  note eq = decode_extradata_structured_eq [OF assms, of E]
  have le: "23 \<le> length ed"
    using assms(2) by simp
  obtain e ctx' where loop: "?loop = (e, ctx')"
    by (cases ?loop)
  from extra_param_sets_calls [of E ed "unat (ed ! 22)" 23 ?ctx1] loop obtain cs where
    ctx': "ctx' = ?ctx1\<lparr>decoder := decoder ?ctx1 @ cs\<rparr>"
    and cs: "\<forall>c \<in> set cs. in_buffer ed c \<and> is_Push_NAL c"
    by auto
  have res: "decode_extradata E ed ctx =
      (case e of Some err \<Rightarrow> (Some err, ctx')
       | None \<Rightarrow> (None, ctx'\<lparr>decoder := decoder ctx' @ [Push_end_of_NAL]\<rparr>))"
    unfolding eq loop by (simp split: option.splits)
  have p1: "packetized (snd (decode_extradata E ed ctx)) = 1"
    and p2: "length_size (snd (decode_extradata E ed ctx)) = uint (ed ! 21 AND 3) + 1"
    unfolding res ctx' by (simp_all split: option.splits)
  have "decoder (snd (decode_extradata E ed ctx)) = decoder ctx @ (case e of Some err \<Rightarrow> cs | None \<Rightarrow> cs @ [Push_end_of_NAL])
      \<and> (\<forall>c \<in> set (case e of Some err \<Rightarrow> cs | None \<Rightarrow> cs @ [Push_end_of_NAL]). in_buffer ed c)"
    unfolding res ctx' using cs by (simp split: option.splits)
  then have p3: "\<exists>cs. decoder (snd (decode_extradata E ed ctx)) = decoder ctx @ cs
      \<and> (\<forall>c \<in> set cs. in_buffer ed c)"
    by blast
  have p4: "fst (decode_extradata E ed ctx) = Some AVERROR_INVALIDDATA"
    if "spec_groups (unat (ed ! 22)) (drop 23 ed) = None"
  proof -
    from extra_param_sets_error [OF that le, of E ?ctx1] loop have "e = Some AVERROR_INVALIDDATA"
      by simp
    then show ?thesis
      unfolding res by simp
  qed
  have p5: "fst (decode_extradata E ed ctx) = None
      \<and> (\<exists>cs. decoder (snd (decode_extradata E ed ctx)) = decoder ctx @ cs @ [Push_end_of_NAL]
            \<and> map (call_bytes ed) cs = nals
            \<and> (\<forall>c \<in> set cs. is_Push_NAL c \<and> in_buffer ed c))"
    if sg: "spec_groups (unat (ed ! 22)) (drop 23 ed) = Some nals" and acc: "\<forall>h c. E h c = DE265_OK"
    for nals
  proof -
    from extra_param_sets_accepted [OF acc sg le, of ?ctx1] loop obtain cs2 where
      e: "e = None" and c2: "ctx' = ?ctx1\<lparr>decoder := decoder ?ctx1 @ cs2\<rparr>"
      and bytes: "map (call_bytes ed) cs2 = nals"
      by auto
    from c2 ctx' have "decoder (?ctx1\<lparr>decoder := decoder ?ctx1 @ cs2\<rparr>)
        = decoder (?ctx1\<lparr>decoder := decoder ?ctx1 @ cs\<rparr>)"
      by simp
    then have "cs2 = cs"
      by simp
    with bytes cs have "decoder (snd (decode_extradata E ed ctx)) = decoder ctx @ cs @ [Push_end_of_NAL]
        \<and> map (call_bytes ed) cs = nals \<and> (\<forall>c \<in> set cs. is_Push_NAL c \<and> in_buffer ed c)"
      unfolding res ctx' e by simp
    then show ?thesis
      unfolding res e by auto
  qed
  from p1 p2 p3 p4 p5 show ?thesis
    by blast
qed


theorem decode_extradata_structured_witness:
  "fst (decode_extradata (\<lambda>h c. DE265_OK) [1, 0, 0, 0, 0, 0, 0, 0, 0, 0, 0, 0, 0, 0, 0, 0, 0, 0, 0, 0, 0, 2, 1, 32, 0, 2, 0, 1, 9, 0, 2, 7, 8 :: byte] ff_libde265dec_ctx_init) = None
   \<and> length_size (snd (decode_extradata (\<lambda>h c. DE265_OK) [1, 0, 0, 0, 0, 0, 0, 0, 0, 0, 0, 0, 0, 0, 0, 0, 0, 0, 0, 0, 0, 2, 1, 32, 0, 2, 0, 1, 9, 0, 2, 7, 8 :: byte] ff_libde265dec_ctx_init)) = 3
   \<and> decoder (snd (decode_extradata (\<lambda>h c. DE265_OK) [1, 0, 0, 0, 0, 0, 0, 0, 0, 0, 0, 0, 0, 0, 0, 0, 0, 0, 0, 0, 0, 2, 1, 32, 0, 2, 0, 1, 9, 0, 2, 7, 8 :: byte] ff_libde265dec_ctx_init)) =
        [Push_NAL Extradata 28 1 0, Push_NAL Extradata 31 2 0, Push_end_of_NAL]
   \<and> map (call_bytes [1, 0, 0, 0, 0, 0, 0, 0, 0, 0, 0, 0, 0, 0, 0, 0, 0, 0, 0, 0, 0, 2, 1, 32, 0, 2, 0, 1, 9, 0, 2, 7, 8 :: byte]) [Push_NAL Extradata 28 1 0, Push_NAL Extradata 31 2 0] = [[9], [7, 8]]
   \<and> fst (decode_extradata (\<lambda>h c. DE265_OK) [1, 0, 0, 0, 0, 0, 0, 0, 0, 0, 0, 0, 0, 0, 0, 0, 0, 0, 0, 0, 0, 2, 1, 32, 0, 2, 0, 1, 9, 0, 2, 7 :: byte] ff_libde265dec_ctx_init)
        = Some AVERROR_INVALIDDATA"
proof -
  let ?ed = "[1, 0, 0, 0, 0, 0, 0, 0, 0, 0, 0, 0, 0, 0, 0, 0, 0, 0, 0, 0, 0, 2, 1, 32, 0, 2, 0, 1, 9, 0, 2, 7, 8 :: byte]"
  let ?edt = "[1, 0, 0, 0, 0, 0, 0, 0, 0, 0, 0, 0, 0, 0, 0, 0, 0, 0, 0, 0, 0, 2, 1, 32, 0, 2, 0, 1, 9, 0, 2, 7 :: byte]"
  have h1: "check_extra ff_libde265dec_ctx_init \<noteq> 0"
    by (simp add: ff_libde265dec_ctx_init_def)
  have h2: "22 < length ?ed" and h2t: "22 < length ?edt"
    by simp_all
  have h3: "?ed ! 0 \<noteq> 0 \<or> ?ed ! 1 \<noteq> 0 \<or> 1 < ?ed ! 2"
    and h3t: "?edt ! 0 \<noteq> 0 \<or> ?edt ! 1 \<noteq> 0 \<or> 1 < ?edt ! 2"
    by simp_all
  have sg: "spec_groups (unat (?ed ! 22)) (drop 23 ?ed) = Some [[9], [7, 8]]"
    by code_simp
  have sgt: "spec_groups (unat (?edt ! 22)) (drop 23 ?edt) = None"
    by code_simp
  have acc: "\<forall>h c. (\<lambda>h c. DE265_OK) h c = DE265_OK"
    by simp
  note ok = decode_extradata_structured [OF h1 h2 h3, of "\<lambda>h c. DE265_OK"]
  note bad = decode_extradata_structured [OF h1 h2t h3t, of "\<lambda>h c. DE265_OK"]
  from ok sg acc have a: "fst (decode_extradata (\<lambda>h c. DE265_OK) ?ed ff_libde265dec_ctx_init) = None"
    by blast
  from ok have "length_size (snd (decode_extradata (\<lambda>h c. DE265_OK) ?ed ff_libde265dec_ctx_init))
      = uint (?ed ! 21 AND 3) + 1"
    by blast
  then have b: "length_size (snd (decode_extradata (\<lambda>h c. DE265_OK) ?ed ff_libde265dec_ctx_init)) = 3"
    by simp
  have c: "decoder (snd (decode_extradata (\<lambda>h c. DE265_OK) ?ed ff_libde265dec_ctx_init)) =
        [Push_NAL Extradata 28 1 0, Push_NAL Extradata 31 2 0, Push_end_of_NAL]"
    by code_simp
  have d: "map (call_bytes ?ed) [Push_NAL Extradata 28 1 0, Push_NAL Extradata 31 2 0] = [[9], [7, 8]]"
    by simp
  from bad sgt have e: "fst (decode_extradata (\<lambda>h c. DE265_OK) ?edt ff_libde265dec_ctx_init)
        = Some AVERROR_INVALIDDATA"
    by blast
  from a b c d e show ?thesis
    by (intro conjI)
qed

subsection \<open>The allocate callback\<close>

lemma set_image_planes_exit:
  "uintptr_t (alignment spec) \<noteq> 0 \<Longrightarrow>
   fst (set_image_planes spec frame i n planes) =
     (if \<forall>k < n. uintptr_t (plane_data frame (i + k)) mod uintptr_t (alignment spec) = 0
      then Planes_set else Plane_misaligned)"
proof (induction n arbitrary: i planes)
  case 0
  then show ?case by simp
next
  case (Suc n)
  show ?case
  proof (cases "uintptr_t (plane_data frame i) mod uintptr_t (alignment spec) = 0")
    case False
    then have "\<not> (\<forall>k < Suc n.
        uintptr_t (plane_data frame (i + k)) mod uintptr_t (alignment spec) = 0)"
      by (auto intro: exI [of _ 0])
    with False Suc.prems show ?thesis by simp
  next
    case True
    have "(\<forall>k < Suc n. uintptr_t (plane_data frame (i + k)) mod uintptr_t (alignment spec) = 0)
        \<longleftrightarrow> (\<forall>k < n. uintptr_t (plane_data frame (Suc i + k)) mod uintptr_t (alignment spec) = 0)"
      using True by (auto simp: less_Suc_eq_0_disj)
    with True Suc.IH [OF Suc.prems, of "Suc i"] Suc.prems show ?thesis by simp
  qed
qed

lemma set_image_planes_zero_alignment:
  "uintptr_t (alignment spec) = 0 \<Longrightarrow>
   set_image_planes spec frame i (Suc n) planes = (Plane_division_by_zero, planes)"
  by simp

lemma get_buffer_spec_rejected:
  "spec_rejected spec \<Longrightarrow>
   ff_libde265dec_get_buffer H avctx dectx spec =
     \<lparr>gb_return = Default_get_buffer, gb_planes = [], gb_freed = [],
      gb_avctx = avctx, gb_dectx = dectx\<rparr>"
  unfolding spec_rejected_def ff_libde265dec_get_buffer_def Let_def
  by (elim disjE) simp_all

lemma get_buffer_spec_accepted:
  "\<not> spec_rejected spec \<Longrightarrow>
   ff_libde265dec_get_buffer H avctx dectx spec =
     (case obtain_frame H avctx dectx spec
             (get_pixel_format (chroma spec) (luma_bits_per_pixel spec)) of
        (None, freed, avctx', dectx') \<Rightarrow>
          \<lparr>gb_return = Default_get_buffer, gb_planes = [], gb_freed = freed,
           gb_avctx = avctx', gb_dectx = dectx'\<rparr>
      | (Some frame, freed, avctx', dectx') \<Rightarrow>
          (case attach_spec_copy H dectx' spec frame of
             (None, dectx'') \<Rightarrow>
               \<lparr>gb_return = Default_get_buffer, gb_planes = [], gb_freed = freed @ [frame],
                gb_avctx = avctx', gb_dectx = dectx''\<rparr>
           | (Some frame', dectx'') \<Rightarrow>
               (case set_image_planes spec frame' 0
                       (if chroma spec = de265_chroma_mono then 1 else 3) [] of
                  (Plane_misaligned, planes) \<Rightarrow>
                    \<lparr>gb_return = Default_get_buffer, gb_planes = planes,
                     gb_freed = freed @ [frame'], gb_avctx = avctx', gb_dectx = dectx''\<rparr>
                | (Plane_division_by_zero, planes) \<Rightarrow>
                    \<lparr>gb_return = Division_by_zero, gb_planes = planes, gb_freed = freed,
                     gb_avctx = avctx', gb_dectx = dectx''\<rparr>
                | (Planes_set, planes) \<Rightarrow>
                    \<lparr>gb_return = Returned 1, gb_planes = planes, gb_freed = freed,
                     gb_avctx = avctx', gb_dectx = dectx''\<rparr>)))"
proof -
  assume a: "\<not> spec_rejected spec"
  have a1: "\<not> (chroma spec \<noteq> de265_chroma_mono
      \<and> luma_bits_per_pixel spec \<noteq> chroma_bits_per_pixel spec)"
    and a2: "\<not> get_pixel_format (chroma spec) (luma_bits_per_pixel spec) = AV_PIX_FMT_NONE"
    and a3: "\<not> get_output_bits_per_pixel
        (get_pixel_format (chroma spec) (luma_bits_per_pixel spec)) \<noteq> luma_bits_per_pixel spec"
    using a unfolding spec_rejected_def by blast+
  show ?thesis
    unfolding ff_libde265dec_get_buffer_def Let_def if_not_P [OF a1] if_not_P [OF a2]
      if_not_P [OF a3]
    by (simp split: prod.splits option.splits plane_loop_exit.splits)
qed

lemma get_buffer_stages:
  assumes "\<not> spec_rejected spec"
    and "obtain_frame H avctx dectx spec
      (get_pixel_format (chroma spec) (luma_bits_per_pixel spec)) = (Some frame, freed, avctx', dectx')"
    and "attach_spec_copy H dectx' spec frame = (Some frame', dectx'')"
    and "set_image_planes spec frame' 0 (if chroma spec = de265_chroma_mono then 1 else 3) []
      = (x, planes)"
  shows "gb_return (ff_libde265dec_get_buffer H avctx dectx spec) =
      (case x of Plane_misaligned \<Rightarrow> Default_get_buffer
       | Plane_division_by_zero \<Rightarrow> Division_by_zero | Planes_set \<Rightarrow> Returned 1)"
  apply (simp only: get_buffer_spec_accepted [OF assms(1)] assms(2-4) prod.case option.case)
  apply (cases x)
    apply simp_all
  done










lemma get_buffer_zero_alignment:
  assumes "obtain_frame H avctx dectx spec
     (get_pixel_format (chroma spec) (luma_bits_per_pixel spec)) = (Some frame, freed, avctx', dectx')"
    and "attach_spec_copy H dectx' spec frame = (Some frame', dectx'')"
    and "\<not> spec_rejected spec"
    and "uintptr_t (alignment spec) = 0"
  shows "gb_return (ff_libde265dec_get_buffer H avctx dectx spec) = Division_by_zero"
proof -
  have "set_image_planes spec frame' 0 (if chroma spec = de265_chroma_mono then 1 else 3) []
      = (Plane_division_by_zero, [])"
    using set_image_planes_zero_alignment [OF assms(4), of frame' 0 0 "[]"]
      set_image_planes_zero_alignment [OF assms(4), of frame' 0 2 "[]"]
    by (simp add: numeral_3_eq_3)
  then show ?thesis
    unfolding get_buffer_spec_accepted [OF assms(3)] assms(1) using assms(2) by simp
qed

lemma get_buffer_returned_1:
  assumes "gb_return (ff_libde265dec_get_buffer H avctx dectx spec) = Returned 1"
  shows "\<not> spec_rejected spec \<and> uintptr_t (alignment spec) \<noteq> 0
    \<and> (\<exists>frame freed avctx' dectx' frame' dectx''.
          obtain_frame H avctx dectx spec
            (get_pixel_format (chroma spec) (luma_bits_per_pixel spec))
              = (Some frame, freed, avctx', dectx')
        \<and> attach_spec_copy H dectx' spec frame = (Some frame', dectx'')
        \<and> (\<forall>i < (if chroma spec = de265_chroma_mono then 1 else 3).
              uintptr_t (plane_data frame' i) mod uintptr_t (alignment spec) = 0))"
proof -
  have nr: "\<not> spec_rejected spec"
    using assms by (auto simp: get_buffer_spec_rejected)
  obtain fo freed avctx' dectx' where o: "obtain_frame H avctx dectx spec
      (get_pixel_format (chroma spec) (luma_bits_per_pixel spec)) = (fo, freed, avctx', dectx')"
    by (metis prod_cases4)
  from assms obtain frame where fo: "fo = Some frame"
    unfolding get_buffer_spec_accepted [OF nr] o by (cases fo) auto
  obtain fa dectx'' where a: "attach_spec_copy H dectx' spec frame = (fa, dectx'')"
    by (cases "attach_spec_copy H dectx' spec frame")
  from assms obtain frame' where fa: "fa = Some frame'"
    unfolding get_buffer_spec_accepted [OF nr] o fo using a by (cases fa) auto
  have nz: "uintptr_t (alignment spec) \<noteq> 0"
    using get_buffer_zero_alignment [OF o [unfolded fo] a [unfolded fa] nr] assms by auto
  obtain x planes where s: "set_image_planes spec frame' 0
      (if chroma spec = de265_chroma_mono then 1 else 3) [] = (x, planes)"
    by (cases "set_image_planes spec frame' 0
          (if chroma spec = de265_chroma_mono then 1 else 3) []")
  have "gb_return (ff_libde265dec_get_buffer H avctx dectx spec) =
      (case x of Plane_misaligned \<Rightarrow> Default_get_buffer
       | Plane_division_by_zero \<Rightarrow> Division_by_zero | Planes_set \<Rightarrow> Returned 1)"
    by (rule get_buffer_stages [OF nr o [unfolded fo] a [unfolded fa] s])
  with assms have "x = Planes_set"
    by (cases x) simp_all
  with s have "fst (set_image_planes spec frame' 0
      (if chroma spec = de265_chroma_mono then 1 else 3) []) = Planes_set"
    by simp
  then have "\<forall>i < (if chroma spec = de265_chroma_mono then 1 else 3).
      uintptr_t (plane_data frame' i) mod uintptr_t (alignment spec) = 0"
    unfolding set_image_planes_exit [OF nz] by (simp split: if_splits)
  with nr nz o fo a fa show ?thesis
    by blast
qed




subsection \<open>The recycling queues\<close>

lemma free_spec_bounded:
  "pools_bounded ctx \<Longrightarrow> pools_bounded (fst (free_spec ctx spec))"
  by (simp add: pools_bounded_def free_spec_def)








subsection \<open>Cropping at retrieval\<close>

text \<open>
  Claim C2 does not hold of the code for the 4:4:4 layout: line 530 takes the shift from
  the plane index alone. For a 4:4:4 picture cropped by 4 pixels on the left and 2 lines
  at the top, with stride 32, the visible size and the first plane are as claimed, but
  the second and third plane move by \<open>2 + 1 * 32\<close> where the claim (shift 0) says
  \<open>4 + 2 * 32\<close>.
\<close>

theorem crop_444_halves_chroma_offsets:
  "chroma example_spec_444 = de265_chroma_444
   \<and> frame_width (fst (reference_frame ff_libde265dec_ctx_init (chroma example_spec_444)
        example_frame_444)) = 28
   \<and> frame_height (fst (reference_frame ff_libde265dec_ctx_init (chroma example_spec_444)
        example_frame_444)) = 14
   \<and> frame_data (fst (reference_frame ff_libde265dec_ctx_init (chroma example_spec_444)
        example_frame_444)) = [1024 + 4 + 2 * 32, 2048 + 2 + 1 * 32, 3072 + 2 + 1 * 32, 0, 0, 0, 0, 0]
   \<and> 2048 + 2 + 1 * 32 \<noteq> 2048 + crop_left example_spec_444 + crop_top example_spec_444 * 32"
  by code_simp

text \<open>
  What the code does for every layout with three planes: full offsets on the first
  plane, halved crop values on the other two.
\<close>

lemma reference_frame_crop:
  assumes "frame_opaque frame = Some spec" "3 \<le> length (frame_data frame)"
    and "chroma_format \<noteq> de265_chroma_mono"
  shows "frame_width (fst (reference_frame ctx chroma_format frame)) = visible_width spec
    \<and> frame_height (fst (reference_frame ctx chroma_format frame)) = visible_height spec
    \<and> plane_data (fst (reference_frame ctx chroma_format frame)) 0
        = plane_data frame 0 + crop_left spec + crop_top spec * plane_linesize frame 0
    \<and> plane_data (fst (reference_frame ctx chroma_format frame)) 1
        = plane_data frame 1 + crop_left spec div 2 + crop_top spec div 2 * plane_linesize frame 1
    \<and> plane_data (fst (reference_frame ctx chroma_format frame)) 2
        = plane_data frame 2 + crop_left spec div 2 + crop_top spec div 2 * plane_linesize frame 2"
proof -
  have up: "[0 ..< (3::nat)] = [0, 1, 2]"
    by code_simp
  have np: "(if chroma_format = de265_chroma_mono then 1 else 3 :: nat) = 3"
    using assms(3) by simp
  obtain ctx' freed where fs: "free_spec ctx spec = (ctx', freed)"
    by (cases "free_spec ctx spec")
  have ne: "frame_data frame \<noteq> []"
    using assms(2) by auto
  show ?thesis
    unfolding reference_frame_def Let_def np up
    using assms(1,2) fs ne
    by (simp add: crop_offset_def plane_data_def plane_linesize_def nth_list_update
        drop_bit_eq_div)
qed

subsection \<open>Bit depth conversion on the copying path\<close>

lemma length_wr16 [simp]: "length (wr16 m a v) = length m"
  by (simp add: wr16_def)

lemma nth_wr16_other: "i \<noteq> a \<Longrightarrow> i \<noteq> Suc a \<Longrightarrow> wr16 m a v ! i = m ! i"
  by (simp add: wr16_def)

lemma rd16_cong: "m ! a = m' ! a \<Longrightarrow> m ! Suc a = m' ! Suc a \<Longrightarrow> rd16 m a = rd16 m' a"
  by (simp add: rd16_def)

lemma word16_of_bytes:
  "push_bit 8 (ucast (ucast (drop_bit 8 v) :: byte)) OR ucast (ucast v :: byte) = (v :: 16 word)"
  by (rule bit_word_eqI) (auto simp: bit_simps)

lemma rd16_wr16: "Suc a < length m \<Longrightarrow> rd16 (wr16 m a v) a = v"
  by (simp add: rd16_def wr16_def word16_of_bytes)

lemma length_line_16_to_16 [simp]: "length (line_16_to_16 f src s dst d n) = length dst"
  by (induction n arbitrary: s dst d) simp_all

lemma line_16_to_16_below: "i < d \<Longrightarrow> line_16_to_16 f src s dst d n ! i = dst ! i"
  by (induction n arbitrary: s dst d) (simp_all add: nth_wr16_other)

lemma line_16_to_16_sample:
  "k < n \<Longrightarrow> d + 2 * k + 1 < length dst \<Longrightarrow>
   rd16 (line_16_to_16 f src s dst d n) (d + 2 * k) = f (rd16 src (s + 2 * k))"
proof (induction n arbitrary: s dst d k)
  case 0
  then show ?case by simp
next
  case (Suc n)
  let ?dst' = "wr16 dst d (f (rd16 src s))"
  show ?case
  proof (cases k)
    case 0
    have "rd16 (line_16_to_16 f src (s + 2) ?dst' (d + 2) n) d = rd16 ?dst' d"
      by (rule rd16_cong) (simp_all add: line_16_to_16_below)
    also have "\<dots> = f (rd16 src s)"
      using Suc.prems 0 by (simp add: rd16_wr16)
    finally show ?thesis
      using 0 by simp
  next
    case (Suc k')
    with Suc.prems have "k' < n" "d + 2 + 2 * k' + 1 < length ?dst'"
      by simp_all
    from Suc.IH [OF this, of "s + 2"] Suc show ?thesis
      by (simp add: ac_simps)
  qed
qed

lemma length_line_8_to_16 [simp]: "length (line_8_to_16 f src s dst d n) = length dst"
  by (induction n arbitrary: s dst d) simp_all

lemma line_8_to_16_below: "i < d \<Longrightarrow> line_8_to_16 f src s dst d n ! i = dst ! i"
  by (induction n arbitrary: s dst d) (simp_all add: nth_wr16_other)

lemma line_8_to_16_sample:
  "k < n \<Longrightarrow> d + 2 * k + 1 < length dst \<Longrightarrow>
   rd16 (line_8_to_16 f src s dst d n) (d + 2 * k) = f (ucast (src ! (s + k)))"
proof (induction n arbitrary: s dst d k)
  case 0
  then show ?case by simp
next
  case (Suc n)
  let ?dst' = "wr16 dst d (f (ucast (src ! s)))"
  show ?case
  proof (cases k)
    case 0
    have "rd16 (line_8_to_16 f src (s + 1) ?dst' (d + 2) n) d = rd16 ?dst' d"
      by (rule rd16_cong) (simp_all add: line_8_to_16_below)
    also have "\<dots> = f (ucast (src ! s))"
      using Suc.prems 0 by (simp add: rd16_wr16)
    finally show ?thesis
      using 0 by simp
  next
    case (Suc k')
    with Suc.prems have "k' < n" "d + 2 + 2 * k' + 1 < length ?dst'"
      by simp_all
    from Suc.IH [OF this, of "s + 1"] Suc show ?thesis
      by (simp add: ac_simps)
  qed
qed

lemma length_memcpy [simp]: "length (memcpy dst d src s n) = length dst"
  by (induction n arbitrary: dst d s) simp_all

lemma memcpy_below: "i < d \<Longrightarrow> memcpy dst d src s n ! i = dst ! i"
  by (induction n arbitrary: dst d s) simp_all

lemma memcpy_byte:
  "a < n \<Longrightarrow> d + a < length dst \<Longrightarrow> memcpy dst d src s n ! (d + a) = src ! (s + a)"
proof (induction n arbitrary: dst d s a)
  case 0
  then show ?case by simp
next
  case (Suc n)
  show ?case
  proof (cases a)
    case 0
    with Suc.prems show ?thesis
      by (simp add: memcpy_below)
  next
    case (Suc a')
    with Suc.prems have "a' < n" "Suc d + a' < length (dst[d := src ! s])"
      by simp_all
    from Suc.IH [OF this, of "Suc s"] Suc show ?thesis
      by simp
  qed
qed


lemma length_plane_lines:
  assumes "\<And>src s dst d. length (line src s dst d) = length dst"
  shows "length (plane_lines line src s stride dst d linesize h) = length dst"
  by (induction h arbitrary: s dst d) (simp_all add: assms)

lemma plane_lines_below:
  assumes "\<And>src s dst d i. i < d \<Longrightarrow> line src s dst d ! i = dst ! i"
  shows "i < d \<Longrightarrow> plane_lines line src s stride dst d linesize h ! i = dst ! i"
  by (induction h arbitrary: s dst d) (simp_all add: assms)

text \<open>
  A property of one position of a line that holds after the line's loop, whatever the
  destination held before, holds for that position of every line after the loop over
  the lines: later lines write at higher addresses only.
\<close>

lemma plane_lines_position:
  assumes len: "\<And>src s dst d. length (line src s dst d) = length dst"
    and below: "\<And>src s dst d i. i < d \<Longrightarrow> line src s dst d ! i = dst ! i"
    and pos: "\<And>s dst d. d + a + w \<le> length dst \<Longrightarrow> P (line src s dst d) (d + a) s"
    and local: "\<And>m m' b s. (\<And>i. b \<le> i \<Longrightarrow> i < b + w \<Longrightarrow> m ! i = m' ! i) \<Longrightarrow> P m b s \<Longrightarrow> P m' b s"
    and fits: "a + w \<le> linesize"
  shows "l < h \<Longrightarrow> d + l * linesize + a + w \<le> length dst \<Longrightarrow>
    P (plane_lines line src s stride dst d linesize h) (d + l * linesize + a) (s + l * stride)"
proof (induction h arbitrary: s dst d l)
  case 0
  then show ?case by simp
next
  case (Suc h)
  let ?dst' = "line src s dst d"
  show ?case
  proof (cases l)
    case 0
    with Suc.prems have "P ?dst' (d + a) s"
      by (intro pos) simp
    moreover have "?dst' ! i = plane_lines line src (s + stride) stride ?dst' (d + linesize) linesize h ! i"
      if "d + a \<le> i" "i < d + a + w" for i
      using that fits by (intro plane_lines_below [symmetric] below) simp_all
    ultimately have "P (plane_lines line src (s + stride) stride ?dst' (d + linesize) linesize h) (d + a) s"
      by (rule local [rotated])
    with 0 show ?thesis
      by simp
  next
    case (Suc l')
    with Suc.prems have "l' < h" "d + linesize + l' * linesize + a + w \<le> length ?dst'"
      by (simp_all add: len ac_simps)
    from Suc.IH [OF this, of "s + stride"] Suc show ?thesis
      by (simp add: ac_simps)
  qed
qed


lemma plane_lines_16_to_16:
  assumes "l < h" "k < n" "2 * n \<le> linesize" "l * linesize + 2 * k + 2 \<le> length dst"
  shows "rd16 (plane_lines (\<lambda>src s dst d. line_16_to_16 f src s dst d n)
                 src 0 stride dst 0 linesize h) (l * linesize + 2 * k)
         = f (rd16 src (l * stride + 2 * k))"
proof -
  have "rd16 (plane_lines (\<lambda>src s dst d. line_16_to_16 f src s dst d n)
                 src 0 stride dst 0 linesize h) (0 + l * linesize + 2 * k)
         = f (rd16 src (0 + l * stride + 2 * k))"
  proof (rule plane_lines_position
      [where P = "\<lambda>m b s. rd16 m b = f (rd16 src (s + 2 * k))" and w = 2])
    show "rd16 (line_16_to_16 f src s dst d n) (d + 2 * k) = f (rd16 src (s + 2 * k))"
      if "d + 2 * k + 2 \<le> length dst" for s dst d
      using that assms(2) by (intro line_16_to_16_sample) simp_all
    show "rd16 m' b = f (rd16 src (s + 2 * k))"
      if "\<And>i. b \<le> i \<Longrightarrow> i < b + 2 \<Longrightarrow> m ! i = m' ! i" "rd16 m b = f (rd16 src (s + 2 * k))"
      for m m' b s
    proof -
      have "rd16 m' b = rd16 m b"
        by (rule rd16_cong) (simp_all add: that(1) [symmetric])
      with that(2) show ?thesis by simp
    qed
    show "2 * k + 2 \<le> linesize"
      using assms(2,3) by simp
  qed (use assms in \<open>simp_all add: line_16_to_16_below\<close>)
  then show ?thesis by simp
qed

lemma plane_lines_8_to_16:
  assumes "l < h" "k < n" "2 * k + 2 \<le> linesize" "l * linesize + 2 * k + 2 \<le> length dst"
  shows "rd16 (plane_lines (\<lambda>src s dst d. line_8_to_16 f src s dst d n)
                 src 0 stride dst 0 linesize h) (l * linesize + 2 * k)
         = f (ucast (src ! (l * stride + k)))"
proof -
  have "rd16 (plane_lines (\<lambda>src s dst d. line_8_to_16 f src s dst d n)
                 src 0 stride dst 0 linesize h) (0 + l * linesize + 2 * k)
         = f (ucast (src ! (0 + l * stride + k)))"
  proof (rule plane_lines_position
      [where P = "\<lambda>m b s. rd16 m b = f (ucast (src ! (s + k)))" and w = 2])
    show "rd16 (line_8_to_16 f src s dst d n) (d + 2 * k) = f (ucast (src ! (s + k)))"
      if "d + 2 * k + 2 \<le> length dst" for s dst d
      using that assms(2) by (intro line_8_to_16_sample) simp_all
    show "rd16 m' b = f (ucast (src ! (s + k)))"
      if "\<And>i. b \<le> i \<Longrightarrow> i < b + 2 \<Longrightarrow> m ! i = m' ! i" "rd16 m b = f (ucast (src ! (s + k)))"
      for m m' b s
    proof -
      have "rd16 m' b = rd16 m b"
        by (rule rd16_cong) (simp_all add: that(1) [symmetric])
      with that(2) show ?thesis by simp
    qed
  qed (use assms in \<open>simp_all add: line_8_to_16_below\<close>)
  then show ?thesis by simp
qed

lemma plane_lines_memcpy:
  assumes "l < h" "a < n" "n \<le> linesize" "l * linesize + a < length dst"
  shows "plane_lines (\<lambda>src s dst d. memcpy dst d src s n) src 0 stride dst 0 linesize h
            ! (l * linesize + a)
         = src ! (l * stride + a)"
proof -
  have "plane_lines (\<lambda>src s dst d. memcpy dst d src s n) src 0 stride dst 0 linesize h
            ! (0 + l * linesize + a)
         = src ! (0 + l * stride + a)"
  proof (rule plane_lines_position
      [where P = "\<lambda>m b s. m ! b = src ! (s + a)" and w = 1])
    show "memcpy dst d src s n ! (d + a) = src ! (s + a)" if "d + a + 1 \<le> length dst" for s dst d
      using that assms(2) by (intro memcpy_byte) simp_all
    show "m' ! b = src ! (s + a)"
      if "\<And>i. b \<le> i \<Longrightarrow> i < b + 1 \<Longrightarrow> m ! i = m' ! i" "m ! b = src ! (s + a)"
      for m m' b s
      using that(1) [of b] that(2) by simp
  qed (use assms in \<open>simp_all add: memcpy_below\<close>)
  then show ?thesis by simp
qed

text \<open>
  The loop over the planes (taken when the source strides are not all equal) converts as
  the claim says, for source depths of 8 bits and more: position \<open>k\<close> of line \<open>l\<close> of the
  destination holds the source sample shifted right by the difference when the source is
  deeper, shifted left by the difference when it is shallower (read as a byte when the
  source has 8 bits, as a 16-bit sample otherwise), and the source byte when the depths
  are equal.
\<close>

lemma convert_plane_samples:
  assumes "l < plane_height p"
  shows "(mx < plane_bits_per_pixel p \<and> k < min (plane_stride p) linesize div 2
            \<and> l * linesize + 2 * k + 2 \<le> length dst \<longrightarrow>
          rd16 (convert_plane mx p (dst, linesize)) (l * linesize + 2 * k)
            = drop_bit (nat (plane_bits_per_pixel p - mx))
                (rd16 (plane_bytes p) (l * plane_stride p + 2 * k)))
       \<and> (8 < plane_bits_per_pixel p \<and> plane_bits_per_pixel p < mx
            \<and> k < min (plane_stride p) linesize div 2
            \<and> l * linesize + 2 * k + 2 \<le> length dst \<longrightarrow>
          rd16 (convert_plane mx p (dst, linesize)) (l * linesize + 2 * k)
            = push_bit (nat (mx - plane_bits_per_pixel p))
                (rd16 (plane_bytes p) (l * plane_stride p + 2 * k)))
       \<and> (plane_bits_per_pixel p = 8 \<and> 8 < mx \<and> k < min (plane_stride p) linesize
            \<and> 2 * k + 2 \<le> linesize \<and> l * linesize + 2 * k + 2 \<le> length dst \<longrightarrow>
          rd16 (convert_plane mx p (dst, linesize)) (l * linesize + 2 * k)
            = push_bit (nat (mx - 8)) (ucast (plane_bytes p ! (l * plane_stride p + k))))
       \<and> (plane_bits_per_pixel p = mx \<and> k < min (plane_stride p) linesize
            \<and> l * linesize + k < length dst \<longrightarrow>
          convert_plane mx p (dst, linesize) ! (l * linesize + k)
            = plane_bytes p ! (l * plane_stride p + k))"
proof (intro conjI impI; elim conjE)
  let ?size = "min (plane_stride p) linesize"
  have half: "2 * (?size div 2) \<le> linesize"
    by simp
  {
    assume "mx < plane_bits_per_pixel p" "k < ?size div 2" "l * linesize + 2 * k + 2 \<le> length dst"
    then show "rd16 (convert_plane mx p (dst, linesize)) (l * linesize + 2 * k)
        = drop_bit (nat (plane_bits_per_pixel p - mx))
            (rd16 (plane_bytes p) (l * plane_stride p + 2 * k))"
      using assms half by (simp add: convert_plane_def Let_def plane_lines_16_to_16)
  next
    assume "8 < plane_bits_per_pixel p" "plane_bits_per_pixel p < mx" "k < ?size div 2"
      "l * linesize + 2 * k + 2 \<le> length dst"
    then show "rd16 (convert_plane mx p (dst, linesize)) (l * linesize + 2 * k)
        = push_bit (nat (mx - plane_bits_per_pixel p))
            (rd16 (plane_bytes p) (l * plane_stride p + 2 * k))"
      using assms half by (simp add: convert_plane_def Let_def plane_lines_16_to_16)
  next
    assume "plane_bits_per_pixel p = 8" "8 < mx" "k < ?size" "2 * k + 2 \<le> linesize"
      "l * linesize + 2 * k + 2 \<le> length dst"
    then show "rd16 (convert_plane mx p (dst, linesize)) (l * linesize + 2 * k)
        = push_bit (nat (mx - 8)) (ucast (plane_bytes p ! (l * plane_stride p + k)))"
      using assms by (simp add: convert_plane_def Let_def plane_lines_8_to_16)
  next
    assume "plane_bits_per_pixel p = mx" "k < ?size" "l * linesize + k < length dst"
    then show "convert_plane mx p (dst, linesize) ! (l * linesize + k)
        = plane_bytes p ! (l * plane_stride p + k)"
      using assms
      by (simp add: convert_plane_def Let_def av_image_copy_plane_def plane_lines_memcpy)
  }
qed

text \<open>
  Claim C9 does not hold of the code when the strides of the source planes are all
  equal: the picture is then copied by \<^verbatim>\<open>av_image_copy\<close> (lines 565-568, under the comment
  that all input planes match the output planes), whatever the bit depths are. A 4:4:4
  picture of 11-bit planes with equal strides resolves to the 16-bit format, and its
  samples arrive unshifted (2047 stays 2047) where the claim says \<open>2047 << 5 = 65504\<close>.
  The same planes with one stride different go through the loop over the planes and are
  shifted.
\<close>

theorem equal_strides_copy_skips_shift:
  "get_pixel_format de265_chroma_444 (max (max 11 11) 11) = AV_PIX_FMT_YUV444P16LE
   \<and> get_output_bits_per_pixel AV_PIX_FMT_YUV444P16LE = 16
   \<and> copy_picture AV_PIX_FMT_YUV444P16LE 2 1
        [example_plane_11, example_plane_11, example_plane_11]
        [([0, 0, 0, 0], 4), ([0, 0, 0, 0], 4), ([0, 0, 0, 0], 4)]
      = [[255, 7, 1, 0], [255, 7, 1, 0], [255, 7, 1, 0]]
   \<and> rd16 [255, 7, 1, 0] 0 = 2047
   \<and> push_bit (nat (16 - 11)) (2047 :: 16 word) = 65504
   \<and> copy_picture AV_PIX_FMT_YUV444P16LE 2 1
        [example_plane_11, example_plane_11\<lparr>plane_stride := 8\<rparr>, example_plane_11]
        [([0, 0, 0, 0], 4), ([0, 0, 0, 0], 4), ([0, 0, 0, 0], 4)]
      = [[224, 255, 32, 0], [224, 255, 32, 0], [224, 255, 32, 0]]
   \<and> rd16 [224, 255, 32, 0] 0 = 65504"
  by code_simp

end
